theory Spec2Isabelle
  imports Main
begin

section \<open>JavaScript values and the operations the page builder uses on them\<close>

text \<open>
  The page-configuration engine receives untrusted JSON. A value is one of the JSON
  shapes, plus \<open>undefined\<close> (what reading a missing property gives). An object is the
  list of its own properties; reading a key gives the first binding of that key.
  Numbers carry an integer payload: the code never computes with them, it only tests
  whether they are falsy.
\<close>

datatype jsval =
    JUndefined
  | JNull
  | JBool bool
  | JNum int
  | JStr string
  | JArr "jsval list"
  | JObj "(string \<times> jsval) list"

datatype jstype = TUndefined | TObject | TBoolean | TNumber | TString

text \<open>The \<^verbatim>\<open>typeof\<close> operator: \<^verbatim>\<open>typeof null\<close> and \<^verbatim>\<open>typeof []\<close> are both \<^verbatim>\<open>'object'\<close>.\<close>

fun typeof :: "jsval \<Rightarrow> jstype" where
  "typeof JUndefined = TUndefined"
| "typeof JNull = TObject"
| "typeof (JBool _) = TBoolean"
| "typeof (JNum _) = TNumber"
| "typeof (JStr _) = TString"
| "typeof (JArr _) = TObject"
| "typeof (JObj _) = TObject"

text \<open>Truthiness, as \<^verbatim>\<open>!x\<close> and \<^verbatim>\<open>if (x)\<close> see it.\<close>

fun truthy :: "jsval \<Rightarrow> bool" where
  "truthy JUndefined = False"
| "truthy JNull = False"
| "truthy (JBool b) = b"
| "truthy (JNum n) = (n \<noteq> 0)"
| "truthy (JStr s) = (s \<noteq> [])"
| "truthy (JArr _) = True"
| "truthy (JObj _) = True"

fun isArray :: "jsval \<Rightarrow> bool" where
  "isArray (JArr _) = True"
| "isArray _ = False"

text \<open>Decimal rendering of an array index, as a template literal prints it.\<close>

fun string_of_nat :: "nat \<Rightarrow> string" where
  "string_of_nat n =
     (if n < 10 then [''0123456789'' ! n]
      else string_of_nat (n div 10) @ [''0123456789'' ! (n mod 10)])"

declare string_of_nat.simps [simp del]

definition digit_val :: "char \<Rightarrow> nat option" where
  "digit_val c = map_of (zip ''0123456789'' [0, 1, 2, 3, 4, 5, 6, 7, 8, 9]) c"

fun digits_val :: "nat \<Rightarrow> string \<Rightarrow> nat option" where
  "digits_val acc [] = Some acc"
| "digits_val acc (c # cs) =
     (case digit_val c of None \<Rightarrow> None | Some d \<Rightarrow> digits_val (10 * acc + d) cs)"

text \<open>
  A property key names an array index when it is the canonical decimal form of a
  natural number (no sign, no leading zero).
\<close>

definition array_index :: "string \<Rightarrow> nat option" where
  "array_index k =
     (if k = [] then None
      else if hd k = CHR ''0'' \<and> tl k \<noteq> [] then None
      else digits_val 0 k)"

text \<open>
  Reading a property of a value that is neither \<^verbatim>\<open>null\<close> nor \<^verbatim>\<open>undefined\<close>: an own
  property of an object, an element or the length of an array or string, and
  \<^verbatim>\<open>undefined\<close> for everything else. Values are data: the members that every object
  inherits from the built-in prototypes of the runtime (\<^verbatim>\<open>toString\<close>, \<^verbatim>\<open>constructor\<close> and
  the like) are not modelled, and none of the keys the parser and validator read is among
  them.
\<close>

fun own_prop :: "jsval \<Rightarrow> string \<Rightarrow> jsval" where
  "own_prop (JObj fs) k = (case map_of fs k of None \<Rightarrow> JUndefined | Some v \<Rightarrow> v)"
| "own_prop (JArr xs) k =
     (if k = ''length'' then JNum (int (length xs))
      else case array_index k of
             None \<Rightarrow> JUndefined
           | Some i \<Rightarrow> if i < length xs then xs ! i else JUndefined)"
| "own_prop (JStr s) k =
     (if k = ''length'' then JNum (int (length s))
      else case array_index k of
             None \<Rightarrow> JUndefined
           | Some i \<Rightarrow> if i < length s then JStr [s ! i] else JUndefined)"
| "own_prop _ k = JUndefined"

text \<open>
  Errors are values. A \<^verbatim>\<open>TypeError\<close> is what the runtime raises when a property of
  \<^verbatim>\<open>null\<close> or \<^verbatim>\<open>undefined\<close> is read, when a method that is not there is called, or
  when \<^verbatim>\<open>in\<close> is applied to a primitive. A \<^verbatim>\<open>RangeError\<close> is what it raises when a call
  exceeds the call stack or the number of arguments the engine allows. \<open>ParseError\<close> is
  the class of the parser: message, path, and the \<open>errors\<close> entry of its details.
\<close>

datatype message =
    MsgConfigMustBeObject
  | MsgPageCodeRequired
  | MsgTitleRequired
  | MsgComponentsMustBeArray
  | MsgDataSourceMustBeArray
  | MsgComponentMustBeObject
  | MsgComponentIdRequired
  | MsgComponentTypeRequired
  | MsgUnsupportedComponentType jsval
  | MsgPropsMustBeObject
  | MsgChildrenMustBeArray
  | MsgDataSourceMustBeObject
  | MsgDataSourceIdRequired
  | MsgDataSourceTypeInvalid
  | MsgDataSourceConfigRequired
  | MsgPageValidationFailed

record ValidationError =
  path :: string
  message :: message
  code :: string

datatype js_error =
    TypeError
  | RangeError
  | ParseError message string "ValidationError list"

type_synonym 'a result = "js_error + 'a"

fun bindE :: "'a result \<Rightarrow> ('a \<Rightarrow> 'b result) \<Rightarrow> 'b result" where
  "bindE (Inl e) f = Inl e"
| "bindE (Inr x) f = f x"

text \<open>\<^verbatim>\<open>v[k]\<close> / \<^verbatim>\<open>v.k\<close>: raises on \<^verbatim>\<open>null\<close> and \<^verbatim>\<open>undefined\<close>.\<close>

fun get_prop :: "jsval \<Rightarrow> string \<Rightarrow> jsval result" where
  "get_prop JUndefined k = Inl TypeError"
| "get_prop JNull k = Inl TypeError"
| "get_prop v k = Inr (own_prop v k)"

text \<open>
  Calling \<^verbatim>\<open>.map\<close> or \<^verbatim>\<open>.forEach\<close> on a value: only an array has the method; on any
  other JSON value the call raises.
\<close>

fun array_of :: "jsval \<Rightarrow> jsval list result" where
  "array_of (JArr xs) = Inr xs"
| "array_of _ = Inl TypeError"

text \<open>\<^verbatim>\<open>k in v\<close>: raises unless \<open>v\<close> is an object (or array).\<close>

fun js_in :: "string \<Rightarrow> jsval \<Rightarrow> bool result" where
  "js_in k (JObj fs) = Inr (k \<in> fst ` set fs)"
| "js_in k (JArr xs) =
     Inr (k = ''length'' \<or> (case array_index k of None \<Rightarrow> False | Some i \<Rightarrow> i < length xs))"
| "js_in k _ = Inl TypeError"

text \<open>A loop body that may raise, run over a list in order; the first error ends it.\<close>

fun mapE :: "('a \<Rightarrow> 'b result) \<Rightarrow> 'a list \<Rightarrow> 'b list result" where
  "mapE f [] = Inr []"
| "mapE f (x # xs) = bindE (f x) (\<lambda>y. bindE (mapE f xs) (\<lambda>ys. Inr (y # ys)))"

fun foldE :: "('s \<Rightarrow> 'a \<Rightarrow> 's result) \<Rightarrow> 'a list \<Rightarrow> 's \<Rightarrow> 's result" where
  "foldE f [] s = Inr s"
| "foldE f (x # xs) s = bindE (f s x) (\<lambda>s'. foldE f xs s')"

lemma bindE_cong [fundef_cong]:
  "m = m' \<Longrightarrow> (\<And>x. m' = Inr x \<Longrightarrow> f x = f' x) \<Longrightarrow> bindE m f = bindE m' f'"
  by (cases m') auto

lemma mapE_cong [fundef_cong]:
  "xs = ys \<Longrightarrow> (\<And>x. x \<in> set ys \<Longrightarrow> f x = g x) \<Longrightarrow> mapE f xs = mapE g ys"
  by (induction ys arbitrary: xs) auto

lemma foldE_cong [fundef_cong]:
  "xs = ys \<Longrightarrow> s = t \<Longrightarrow> (\<And>a x. x \<in> set ys \<Longrightarrow> f a x = g a x) \<Longrightarrow>
   foldE f xs s = foldE g ys t"
proof (induction ys arbitrary: xs s t)
  case Nil
  then show ?case by simp
next
  case (Cons y ys)
  have "foldE f ys a = foldE g ys a" for a
    using Cons.IH [OF refl refl] Cons.prems(3) by simp
  then have "foldE f ys = foldE g ys" by (rule ext)
  with Cons.prems show ?case by simp
qed

section \<open>Component Type Registry\<close>

definition SUPPORTED_COMPONENT_TYPES :: "string list" where
  "SUPPORTED_COMPONENT_TYPES =
     [''MButton'', ''MInput'', ''MCard'', ''MList'', ''MText'', ''MImage'', ''MIcon'',
      ''MScanner'', ''MTable'', ''MForm'', ''MWorkOrderCard'', ''MLocationPicker'',
      ''MContainer'', ''MRow'', ''MCol'', ''MGrid'', ''MScrollView'',
      ''MSelect'', ''MDatePicker'', ''MSwitch'', ''MRadio'', ''MCheckbox'']"

text \<open>
  \<^verbatim>\<open>componentTypeSet.has(x)\<close>: the set holds strings only, so a value that is not a string
  is never a member.
\<close>

fun componentTypeSet_has :: "jsval \<Rightarrow> bool" where
  "componentTypeSet_has (JStr s) = (s \<in> set SUPPORTED_COMPONENT_TYPES)"
| "componentTypeSet_has _ = False"

definition isComponentTypeSupported :: "string \<Rightarrow> bool" where
  "isComponentTypeSupported ty = componentTypeSet_has (JStr ty)"

section \<open>Validator\<close>

record ValidationResult =
  valid :: bool
  errors :: "ValidationError list"

lemma size_arr_elem: "c \<in> set cs \<Longrightarrow> size c < size (JArr cs)"
  by (induction cs) auto

lemma size_obj_elem: "(k, v) \<in> set fs \<Longrightarrow> size v < size (JObj fs)"
  by (induction fs) auto

lemma size_own_prop: "size (own_prop v k) \<le> size v"
proof (cases v)
  case (JObj fs)
  show ?thesis
  proof (cases "map_of fs k")
    case None
    with JObj show ?thesis by simp
  next
    case (Some w)
    then have "(k, w) \<in> set fs" by (rule map_of_SomeD)
    from size_obj_elem [OF this] JObj Some show ?thesis by simp
  qed
next
  case (JArr xs)
  have "i < length xs \<Longrightarrow> size (xs ! i) \<le> size (JArr xs)" for i
    using size_arr_elem [of "xs ! i" xs] by simp
  with JArr show ?thesis by (auto split: option.splits)
qed (auto split: option.splits)

function validateComponentConfig :: "jsval \<Rightarrow> string \<Rightarrow> ValidationError list result" where
  "validateComponentConfig config pth =
     (if \<not> truthy config \<or> typeof config \<noteq> TObject then
        Inr [\<lparr>path = pth, message = MsgComponentMustBeObject, code = ''INVALID_CONFIG''\<rparr>]
      else
        bindE (get_prop config ''id'') (\<lambda>comp_id.
        bindE (get_prop config ''type'') (\<lambda>comp_type.
        bindE (get_prop config ''props'') (\<lambda>comp_props.
        bindE (get_prop config ''children'') (\<lambda>comp_children.
        bindE
          (if comp_children \<noteq> JUndefined then
             (if \<not> isArray comp_children then
                Inr [\<lparr>path = pth @ ''.children'', message = MsgChildrenMustBeArray,
                      code = ''INVALID_TYPE''\<rparr>]
              else
                bindE (array_of comp_children) (\<lambda>cs.
                bindE (mapE (\<lambda>(index, child).
                         validateComponentConfig child
                           (pth @ ''.children['' @ string_of_nat index @ '']''))
                       (enumerate 0 cs)) (\<lambda>childErrors.
                Inr (concat childErrors))))
           else Inr []) (\<lambda>children_errors.
        Inr
          ((if \<not> truthy comp_id \<or> typeof comp_id \<noteq> TString then
              [\<lparr>path = pth @ ''.id'', message = MsgComponentIdRequired,
                code = ''REQUIRED_FIELD''\<rparr>]
            else [])
           @ (if \<not> truthy comp_type \<or> typeof comp_type \<noteq> TString then
                [\<lparr>path = pth @ ''.type'', message = MsgComponentTypeRequired,
                  code = ''REQUIRED_FIELD''\<rparr>]
              else if \<not> componentTypeSet_has comp_type then
                [\<lparr>path = pth @ ''.type'', message = MsgUnsupportedComponentType comp_type,
                  code = ''UNSUPPORTED_TYPE''\<rparr>]
              else [])
           @ (if comp_props \<noteq> JUndefined \<and> typeof comp_props \<noteq> TObject then
                [\<lparr>path = pth @ ''.props'', message = MsgPropsMustBeObject,
                  code = ''INVALID_TYPE''\<rparr>]
              else [])
           @ children_errors)))))))"
  by pat_completeness auto
termination
proof (relation "measure (\<lambda>(config, pth). size config)", goal_cases)
  case 1
  show ?case by simp
next
  case (2 config pth comp_id comp_type comp_props comp_children cs x index child)
  from 2 have nn: "config \<noteq> JUndefined" "config \<noteq> JNull" by auto
  from 2(5) nn have ch: "comp_children = own_prop config ''children''"
    by (cases config) auto
  from 2(8) have cs: "comp_children = JArr cs" by (cases comp_children) auto
  from 2(9,10) have "child \<in> set cs" by (auto simp: in_set_enumerate_eq)
  then have "size child < size (JArr cs)" by (rule size_arr_elem)
  also have "\<dots> \<le> size config" using size_own_prop [of config "''children''"] ch cs by simp
  finally show ?case by simp
qed

declare validateComponentConfig.simps [simp del]

function validateDataSourceConfig :: "jsval \<Rightarrow> string \<Rightarrow> ValidationError list result" where
  "validateDataSourceConfig config pth =
     (if \<not> truthy config \<or> typeof config \<noteq> TObject then
        Inr [\<lparr>path = pth, message = MsgDataSourceMustBeObject, code = ''INVALID_CONFIG''\<rparr>]
      else
        bindE (get_prop config ''id'') (\<lambda>ds_id.
        bindE (get_prop config ''type'') (\<lambda>ds_type.
        bindE (get_prop config ''config'') (\<lambda>ds_config.
        Inr
          ((if \<not> truthy ds_id \<or> typeof ds_id \<noteq> TString then
              [\<lparr>path = pth @ ''.id'', message = MsgDataSourceIdRequired,
                code = ''REQUIRED_FIELD''\<rparr>]
            else [])
           @ (if \<not> truthy ds_type
                 \<or> ds_type \<notin> set [JStr ''api'', JStr ''static'', JStr ''computed''] then
                [\<lparr>path = pth @ ''.type'', message = MsgDataSourceTypeInvalid,
                  code = ''INVALID_TYPE''\<rparr>]
              else [])
           @ (if \<not> truthy ds_config \<or> typeof ds_config \<noteq> TObject then
                [\<lparr>path = pth @ ''.config'', message = MsgDataSourceConfigRequired,
                  code = ''REQUIRED_FIELD''\<rparr>]
              else []))))))"
  by pat_completeness auto
termination
  by (relation "{}") simp

declare validateDataSourceConfig.simps [simp del]

definition validatePageConfig :: "jsval \<Rightarrow> ValidationResult result" where
  "validatePageConfig config =
     (if \<not> truthy config \<or> typeof config \<noteq> TObject then
        Inr \<lparr>valid = False,
             errors = [\<lparr>path = [], message = MsgConfigMustBeObject,
                        code = ''INVALID_CONFIG''\<rparr>]\<rparr>
      else
        bindE (get_prop config ''pageCode'') (\<lambda>pageCode.
        bindE (get_prop config ''title'') (\<lambda>title.
        bindE (get_prop config ''components'') (\<lambda>components.
        bindE
          (if \<not> isArray components then
             Inr [\<lparr>path = ''components'', message = MsgComponentsMustBeArray,
                   code = ''INVALID_TYPE''\<rparr>]
           else
             bindE (array_of components) (\<lambda>cs.
             bindE (mapE (\<lambda>(index, comp).
                      validateComponentConfig comp
                        (''components['' @ string_of_nat index @ '']''))
                    (enumerate 0 cs)) (\<lambda>compErrors.
             Inr (concat compErrors)))) (\<lambda>components_errors.
        bindE (get_prop config ''dataSource'') (\<lambda>dataSource.
        bindE
          (if dataSource \<noteq> JUndefined then
             (if \<not> isArray dataSource then
                Inr [\<lparr>path = ''dataSource'', message = MsgDataSourceMustBeArray,
                      code = ''INVALID_TYPE''\<rparr>]
              else
                bindE (array_of dataSource) (\<lambda>dss.
                bindE (mapE (\<lambda>(index, ds).
                         validateDataSourceConfig ds
                           (''dataSource['' @ string_of_nat index @ '']''))
                       (enumerate 0 dss)) (\<lambda>dsErrors.
                Inr (concat dsErrors))))
           else Inr []) (\<lambda>dataSource_errors.
        (let errs =
           (if \<not> truthy pageCode \<or> typeof pageCode \<noteq> TString then
              [\<lparr>path = ''pageCode'', message = MsgPageCodeRequired,
                code = ''REQUIRED_FIELD''\<rparr>]
            else [])
           @ (if \<not> truthy title \<or> typeof title \<noteq> TString then
                [\<lparr>path = ''title'', message = MsgTitleRequired,
                  code = ''REQUIRED_FIELD''\<rparr>]
              else [])
           @ components_errors
           @ dataSource_errors
         in Inr \<lparr>valid = (length errs = 0), errors = errs\<rparr>))))))))"

section \<open>Parser\<close>

datatype ParsedComponent =
  ParsedComponent
    (pc_id: jsval)
    (pc_type: jsval)
    (pc_props: "(string \<times> jsval) list")
    (pc_children: "ParsedComponent list option")
    (pc_visible: bool)

record ParsedPage =
  pp_pageCode :: jsval
  pp_title :: jsval
  pp_components :: "ParsedComponent list"
  pp_dataSources :: "(jsval \<times> jsval) list"

text \<open>\<^verbatim>\<open>{ ...v }\<close>: the own enumerable properties of \<open>v\<close>, none for a primitive that is not a string.\<close>

fun spread :: "jsval \<Rightarrow> (string \<times> jsval) list" where
  "spread (JObj fs) = fs"
| "spread (JArr xs) = map (\<lambda>(i, x). (string_of_nat i, x)) (enumerate 0 xs)"
| "spread (JStr s) = map (\<lambda>(i, c). (string_of_nat i, JStr [c])) (enumerate 0 s)"
| "spread _ = []"

text \<open>\<^verbatim>\<open>permissions.has(x)\<close> on a \<^verbatim>\<open>Set<string>\<close>: only a string can be a member.\<close>

fun set_has :: "string set \<Rightarrow> jsval \<Rightarrow> bool" where
  "set_has S (JStr s) = (s \<in> S)"
| "set_has S _ = False"

text \<open>
  A \<^verbatim>\<open>Map\<close> is the list of its entries in insertion order; \<^verbatim>\<open>set\<close> on a key that is
  there replaces the value in place. Keys are compared as values, which is how a
  \<^verbatim>\<open>Map\<close> compares strings and the other primitives; the keys of the maps below are
  strings wherever a property is stated.
\<close>

definition js_map_has :: "('k \<times> 'v) list \<Rightarrow> 'k \<Rightarrow> bool" where
  "js_map_has m k = (map_of m k \<noteq> None)"

definition js_map_get :: "('k \<times> 'v) list \<Rightarrow> 'k \<Rightarrow> 'v option" where
  "js_map_get m k = map_of m k"

fun js_map_set :: "('k \<times> 'v) list \<Rightarrow> 'k \<Rightarrow> 'v \<Rightarrow> ('k \<times> 'v) list" where
  "js_map_set [] k v = [(k, v)]"
| "js_map_set ((k', v') # m) k v =
     (if k' = k then (k, v) # m else (k', v') # js_map_set m k v)"

function parseComponent :: "jsval \<Rightarrow> string set \<Rightarrow> ParsedComponent result" where
  "parseComponent config permissions =
     bindE (get_prop config ''visible'') (\<lambda>config_visible.
     bindE (get_prop config ''permission'') (\<lambda>config_permission.
     (let visible0 = (config_visible \<noteq> JBool False);
          visible = (if truthy config_permission \<and> \<not> set_has permissions config_permission
                     then False else visible0)
      in
     bindE (get_prop config ''children'') (\<lambda>config_children.
     bindE
       (if config_children = JUndefined \<or> config_children = JNull then Inr None
        else
          bindE (array_of config_children) (\<lambda>cs.
          bindE (mapE (\<lambda>child. parseComponent child permissions) cs) (\<lambda>pcs.
          Inr (Some pcs)))) (\<lambda>children.
     bindE (get_prop config ''id'') (\<lambda>config_id.
     bindE (get_prop config ''type'') (\<lambda>config_type.
     bindE (get_prop config ''props'') (\<lambda>config_props.
     Inr (ParsedComponent config_id config_type (spread config_props) children visible)))))))))"
  by pat_completeness auto
termination
proof (relation "measure (\<lambda>(config, permissions). size config)", goal_cases)
  case 1
  show ?case by simp
next
  case (2 config permissions config_visible config_permission visible0 visible
          config_children cs child)
  from 2(1) have "config \<noteq> JUndefined" "config \<noteq> JNull" by auto
  with 2(5) have ch: "config_children = own_prop config ''children''"
    by (cases config) auto
  from 2(7) have cs: "config_children = JArr cs" by (cases config_children) auto
  from 2(8) have "size child < size (JArr cs)" by (rule size_arr_elem)
  also have "\<dots> \<le> size config" using size_own_prop [of config "''children''"] ch cs by simp
  finally show ?case by simp
qed

declare parseComponent.simps [simp del]

text \<open>
  The callback of \<^verbatim>\<open>config.dataSource.forEach\<close> in \<open>parsePageConfig\<close>: it stores one
  entry in the \<open>dataSources\<close> map, which is passed through.
\<close>

definition initDataSource :: "(jsval \<times> jsval) list \<Rightarrow> jsval \<Rightarrow> (jsval \<times> jsval) list result" where
  "initDataSource dataSources ds =
     bindE (get_prop ds ''type'') (\<lambda>ds_type.
     bindE
       (if ds_type = JStr ''static'' then
          bindE (get_prop ds ''config'') (\<lambda>ds_config. js_in ''data'' ds_config)
        else Inr False) (\<lambda>static_with_data.
     if static_with_data then
       bindE (get_prop ds ''id'') (\<lambda>ds_id.
       bindE (get_prop ds ''config'') (\<lambda>ds_config.
       bindE (get_prop ds_config ''data'') (\<lambda>ds_data.
       Inr (js_map_set dataSources ds_id ds_data))))
     else
       bindE (get_prop ds ''id'') (\<lambda>ds_id.
       Inr (js_map_set dataSources ds_id JNull))))"

definition parsePageConfig :: "jsval \<Rightarrow> string list \<Rightarrow> ParsedPage result" where
  "parsePageConfig config userPermissions =
     bindE (validatePageConfig config) (\<lambda>validation.
     if \<not> valid validation then
       Inl (ParseError MsgPageValidationFailed [] (errors validation))
     else
       (let permissions = set userPermissions in
        bindE (get_prop config ''components'') (\<lambda>config_components.
        bindE (array_of config_components) (\<lambda>cs.
        bindE (mapE (\<lambda>comp. parseComponent comp permissions) cs) (\<lambda>components.
        bindE (get_prop config ''dataSource'') (\<lambda>config_dataSource.
        bindE
          (if truthy config_dataSource then
             bindE (array_of config_dataSource) (\<lambda>dss. foldE initDataSource dss [])
           else Inr []) (\<lambda>dataSources.
        bindE (get_prop config ''pageCode'') (\<lambda>config_pageCode.
        bindE (get_prop config ''title'') (\<lambda>config_title.
        Inr \<lparr>pp_pageCode = config_pageCode, pp_title = config_title,
             pp_components = components, pp_dataSources = dataSources\<rparr>)))))))))"

section \<open>Binding collector\<close>

function collectBindings ::
  "jsval \<Rightarrow> (jsval \<times> jsval list) list \<Rightarrow> (jsval \<times> jsval list) list result" where
  "collectBindings components bindings =
     bindE (array_of components) (\<lambda>cs.
     foldE (\<lambda>bindings comp.
        bindE (get_prop comp ''dataBinding'') (\<lambda>dataBinding.
        bindE
          (if truthy dataBinding then
             bindE (get_prop dataBinding ''source'') (\<lambda>source.
             (let bindings1 =
                (if \<not> js_map_has bindings source then js_map_set bindings source []
                 else bindings)
              in
             (case js_map_get bindings1 source of
                None \<Rightarrow> Inl TypeError
              | Some arr \<Rightarrow>
                  bindE (get_prop dataBinding ''field'') (\<lambda>field.
                  Inr (js_map_set bindings1 source (arr @ [field]))))))
           else Inr bindings) (\<lambda>bindings2.
        bindE (get_prop comp ''children'') (\<lambda>children.
        if truthy children then collectBindings children bindings2
        else Inr bindings2))))
       cs bindings)"
  by pat_completeness auto
termination
proof (relation "measure (\<lambda>(components, bindings). size components)", goal_cases)
  case 1
  show ?case by simp
next
  case (2 components bindings cs bindings' comp dataBinding bindings2 children)
  from 2(1) have cs: "components = JArr cs" by (cases components) auto
  from 2(5) have "children = own_prop comp ''children''" by (cases comp) auto
  then have "size children \<le> size comp" by (simp add: size_own_prop)
  also have "\<dots> < size (JArr cs)" using 2(2) by (rule size_arr_elem)
  finally show ?case using cs by simp
qed

declare collectBindings.simps [simp del]

definition getDataBindings :: "jsval \<Rightarrow> (jsval \<times> jsval list) list result" where
  "getDataBindings config =
     bindE (get_prop config ''components'') (\<lambda>components. collectBindings components [])"

section \<open>Engine limits\<close>

text \<open>
  The definitions above give what a run returns when the engine has room for every call.
  An engine refuses a call that would nest deeper than its call stack allows, and a call
  with more arguments than it allows (\<^verbatim>\<open>errors.push(...list)\<close> passes one argument for
  each element of the list); it then raises \<^verbatim>\<open>RangeError\<close>. The two limits are
  parameters. Every call the source makes, of a function of the program, of a callback
  or of a built-in, takes one frame; \<open>d\<close> is the depth of the frame a function runs in.
  The functions of this section are the validator and the parser with these refusals.
\<close>

record engine =
  max_depth :: nat
  max_args :: nat

definition enter :: "engine \<Rightarrow> nat \<Rightarrow> 'a result \<Rightarrow> 'a result" where
  "enter eng d body = (if max_depth eng < d then Inl RangeError else body)"

text \<open>A call of a built-in that returns \<open>v\<close>, running in frame \<open>d\<close>.\<close>

definition call_builtin :: "engine \<Rightarrow> nat \<Rightarrow> 'a \<Rightarrow> 'a result" where
  "call_builtin eng d v = enter eng d (Inr v)"

text \<open>\<^verbatim>\<open>errors.push(...xs)\<close> running in frame \<open>d\<close>; it gives the elements it appended.\<close>

definition push_spread :: "engine \<Rightarrow> nat \<Rightarrow> 'a list \<Rightarrow> 'a list result" where
  "push_spread eng d xs =
     (if max_args eng < length xs then Inl RangeError else call_builtin eng d xs)"

lemma get_prop_Inr: "get_prop v k = Inr w \<Longrightarrow> w = own_prop v k"
  by (cases v) auto

function validateComponentConfig_on ::
  "engine \<Rightarrow> nat \<Rightarrow> jsval \<Rightarrow> string \<Rightarrow> ValidationError list result" where
  "validateComponentConfig_on eng d config pth =
     enter eng d
       (if \<not> truthy config \<or> typeof config \<noteq> TObject then
          call_builtin eng (Suc d)
            [\<lparr>path = pth, message = MsgComponentMustBeObject, code = ''INVALID_CONFIG''\<rparr>]
        else
          bindE (get_prop config ''id'') (\<lambda>comp_id.
          bindE
            (if \<not> truthy comp_id \<or> typeof comp_id \<noteq> TString then
               call_builtin eng (Suc d)
                 [\<lparr>path = pth @ ''.id'', message = MsgComponentIdRequired,
                   code = ''REQUIRED_FIELD''\<rparr>]
             else Inr []) (\<lambda>id_errors.
          bindE (get_prop config ''type'') (\<lambda>comp_type.
          bindE
            (if \<not> truthy comp_type \<or> typeof comp_type \<noteq> TString then
               call_builtin eng (Suc d)
                 [\<lparr>path = pth @ ''.type'', message = MsgComponentTypeRequired,
                   code = ''REQUIRED_FIELD''\<rparr>]
             else
               bindE (call_builtin eng (Suc d) (componentTypeSet_has comp_type)) (\<lambda>supported.
               if \<not> supported then
                 call_builtin eng (Suc d)
                   [\<lparr>path = pth @ ''.type'', message = MsgUnsupportedComponentType comp_type,
                     code = ''UNSUPPORTED_TYPE''\<rparr>]
               else Inr [])) (\<lambda>type_errors.
          bindE (get_prop config ''props'') (\<lambda>comp_props.
          bindE
            (if comp_props \<noteq> JUndefined \<and> typeof comp_props \<noteq> TObject then
               call_builtin eng (Suc d)
                 [\<lparr>path = pth @ ''.props'', message = MsgPropsMustBeObject,
                   code = ''INVALID_TYPE''\<rparr>]
             else Inr []) (\<lambda>props_errors.
          bindE (get_prop config ''children'') (\<lambda>comp_children.
          bindE
            (if comp_children \<noteq> JUndefined then
               bindE (call_builtin eng (Suc d) (isArray comp_children)) (\<lambda>is_array.
               if \<not> is_array then
                 call_builtin eng (Suc d)
                   [\<lparr>path = pth @ ''.children'', message = MsgChildrenMustBeArray,
                     code = ''INVALID_TYPE''\<rparr>]
               else
                 bindE (array_of comp_children) (\<lambda>cs.
                 enter eng (Suc d)
                   (bindE (mapE (\<lambda>(index, child).
                             enter eng (d + 2)
                               (bindE (validateComponentConfig_on eng (d + 3) child
                                         (pth @ ''.children['' @ string_of_nat index @ '']''))
                                  (\<lambda>childErrors. push_spread eng (d + 3) childErrors)))
                           (enumerate 0 cs)) (\<lambda>pushed.
                    Inr (concat pushed)))))
             else Inr []) (\<lambda>children_errors.
          Inr (id_errors @ type_errors @ props_errors @ children_errors))))))))))"
  by pat_completeness auto
termination
proof (relation "measure (\<lambda>(eng, d, config, pth). size config)", goal_cases)
  case 1
  show ?case by simp
next
  case (2 eng d config pth comp_id id_errors comp_type type_errors comp_props props_errors
          comp_children is_array cs x index child)
  from 2(8) have ch: "comp_children = own_prop config ''children''" by (rule get_prop_Inr)
  from 2(12) have cs: "comp_children = JArr cs" by (cases comp_children) auto
  from 2(13,14) have "child \<in> set cs" by (auto simp: in_set_enumerate_eq)
  then have "size child < size (JArr cs)" by (rule size_arr_elem)
  also have "\<dots> \<le> size config" using size_own_prop [of config "''children''"] ch cs by simp
  finally show ?case by simp
qed

declare validateComponentConfig_on.simps [simp del]

definition validateDataSourceConfig_on ::
  "engine \<Rightarrow> nat \<Rightarrow> jsval \<Rightarrow> string \<Rightarrow> ValidationError list result" where
  "validateDataSourceConfig_on eng d config pth =
     enter eng d
       (if \<not> truthy config \<or> typeof config \<noteq> TObject then
          call_builtin eng (Suc d)
            [\<lparr>path = pth, message = MsgDataSourceMustBeObject, code = ''INVALID_CONFIG''\<rparr>]
        else
          bindE (get_prop config ''id'') (\<lambda>ds_id.
          bindE
            (if \<not> truthy ds_id \<or> typeof ds_id \<noteq> TString then
               call_builtin eng (Suc d)
                 [\<lparr>path = pth @ ''.id'', message = MsgDataSourceIdRequired,
                   code = ''REQUIRED_FIELD''\<rparr>]
             else Inr []) (\<lambda>id_errors.
          bindE (get_prop config ''type'') (\<lambda>ds_type.
          bindE
            (if \<not> truthy ds_type then Inr True
             else
               bindE (call_builtin eng (Suc d)
                        (ds_type \<in> set [JStr ''api'', JStr ''static'', JStr ''computed'']))
                 (\<lambda>included. Inr (\<not> included))) (\<lambda>type_invalid.
          bindE
            (if type_invalid then
               bindE (call_builtin eng (Suc d) ()) (\<lambda>joined.
               call_builtin eng (Suc d)
                 [\<lparr>path = pth @ ''.type'', message = MsgDataSourceTypeInvalid,
                   code = ''INVALID_TYPE''\<rparr>])
             else Inr []) (\<lambda>type_errors.
          bindE (get_prop config ''config'') (\<lambda>ds_config.
          bindE
            (if \<not> truthy ds_config \<or> typeof ds_config \<noteq> TObject then
               call_builtin eng (Suc d)
                 [\<lparr>path = pth @ ''.config'', message = MsgDataSourceConfigRequired,
                   code = ''REQUIRED_FIELD''\<rparr>]
             else Inr []) (\<lambda>config_errors.
          Inr (id_errors @ type_errors @ config_errors)))))))))"

definition validatePageConfig_on :: "engine \<Rightarrow> nat \<Rightarrow> jsval \<Rightarrow> ValidationResult result" where
  "validatePageConfig_on eng d config =
     enter eng d
       (if \<not> truthy config \<or> typeof config \<noteq> TObject then
          bindE (call_builtin eng (Suc d)
                   [\<lparr>path = [], message = MsgConfigMustBeObject, code = ''INVALID_CONFIG''\<rparr>])
            (\<lambda>errs. Inr \<lparr>valid = False, errors = errs\<rparr>)
        else
          bindE (get_prop config ''pageCode'') (\<lambda>pageCode.
          bindE
            (if \<not> truthy pageCode \<or> typeof pageCode \<noteq> TString then
               call_builtin eng (Suc d)
                 [\<lparr>path = ''pageCode'', message = MsgPageCodeRequired,
                   code = ''REQUIRED_FIELD''\<rparr>]
             else Inr []) (\<lambda>pageCode_errors.
          bindE (get_prop config ''title'') (\<lambda>title.
          bindE
            (if \<not> truthy title \<or> typeof title \<noteq> TString then
               call_builtin eng (Suc d)
                 [\<lparr>path = ''title'', message = MsgTitleRequired, code = ''REQUIRED_FIELD''\<rparr>]
             else Inr []) (\<lambda>title_errors.
          bindE (get_prop config ''components'') (\<lambda>components.
          bindE (call_builtin eng (Suc d) (isArray components)) (\<lambda>components_is_array.
          bindE
            (if \<not> components_is_array then
               call_builtin eng (Suc d)
                 [\<lparr>path = ''components'', message = MsgComponentsMustBeArray,
                   code = ''INVALID_TYPE''\<rparr>]
             else
               bindE (array_of components) (\<lambda>cs.
               enter eng (Suc d)
                 (bindE (mapE (\<lambda>(index, comp).
                           enter eng (d + 2)
                             (bindE (validateComponentConfig_on eng (d + 3) comp
                                       (''components['' @ string_of_nat index @ '']''))
                                (\<lambda>compErrors. push_spread eng (d + 3) compErrors)))
                         (enumerate 0 cs)) (\<lambda>pushed.
                  Inr (concat pushed))))) (\<lambda>components_errors.
          bindE (get_prop config ''dataSource'') (\<lambda>dataSource.
          bindE
            (if dataSource \<noteq> JUndefined then
               bindE (call_builtin eng (Suc d) (isArray dataSource)) (\<lambda>dataSource_is_array.
               if \<not> dataSource_is_array then
                 call_builtin eng (Suc d)
                   [\<lparr>path = ''dataSource'', message = MsgDataSourceMustBeArray,
                     code = ''INVALID_TYPE''\<rparr>]
               else
                 bindE (array_of dataSource) (\<lambda>dss.
                 enter eng (Suc d)
                   (bindE (mapE (\<lambda>(index, ds).
                             enter eng (d + 2)
                               (bindE (validateDataSourceConfig_on eng (d + 3) ds
                                         (''dataSource['' @ string_of_nat index @ '']''))
                                  (\<lambda>dsErrors. push_spread eng (d + 3) dsErrors)))
                           (enumerate 0 dss)) (\<lambda>pushed.
                    Inr (concat pushed)))))
             else Inr []) (\<lambda>dataSource_errors.
          (let errs = pageCode_errors @ title_errors @ components_errors @ dataSource_errors
           in Inr \<lparr>valid = (length errs = 0), errors = errs\<rparr>)))))))))))"

function parseComponent_on ::
  "engine \<Rightarrow> nat \<Rightarrow> jsval \<Rightarrow> string set \<Rightarrow> ParsedComponent result" where
  "parseComponent_on eng d config permissions =
     enter eng d
       (bindE (get_prop config ''visible'') (\<lambda>config_visible.
        bindE (get_prop config ''permission'') (\<lambda>config_permission.
        bindE
          (if truthy config_permission then
             bindE (call_builtin eng (Suc d) (set_has permissions config_permission))
               (\<lambda>has. Inr (\<not> has))
           else Inr False) (\<lambda>denied.
        (let visible = (if denied then False else config_visible \<noteq> JBool False) in
        bindE (get_prop config ''children'') (\<lambda>config_children.
        bindE
          (if config_children = JUndefined \<or> config_children = JNull then Inr None
           else
             bindE (array_of config_children) (\<lambda>cs.
             enter eng (Suc d)
               (bindE (mapE (\<lambda>child.
                         enter eng (d + 2) (parseComponent_on eng (d + 3) child permissions))
                       cs) (\<lambda>pcs.
                Inr (Some pcs))))) (\<lambda>children.
        bindE (get_prop config ''id'') (\<lambda>config_id.
        bindE (get_prop config ''type'') (\<lambda>config_type.
        bindE (get_prop config ''props'') (\<lambda>config_props.
        Inr (ParsedComponent config_id config_type (spread config_props) children
               visible)))))))))))"
  by pat_completeness auto
termination
proof (relation "measure (\<lambda>(eng, d, config, permissions). size config)", goal_cases)
  case 1
  show ?case by simp
next
  case (2 eng d config permissions config_visible config_permission denied visible
          config_children cs child)
  from 2(5) have ch: "config_children = own_prop config ''children''" by (rule get_prop_Inr)
  from 2(7) have cs: "config_children = JArr cs" by (cases config_children) auto
  from 2(8) have "size child < size (JArr cs)" by (rule size_arr_elem)
  also have "\<dots> \<le> size config" using size_own_prop [of config "''children''"] ch cs by simp
  finally show ?case by simp
qed

declare parseComponent_on.simps [simp del]

text \<open>The callback of \<^verbatim>\<open>config.dataSource.forEach\<close>, running in frame \<open>d\<close>.\<close>

definition initDataSource_on ::
  "engine \<Rightarrow> nat \<Rightarrow> (jsval \<times> jsval) list \<Rightarrow> jsval \<Rightarrow> (jsval \<times> jsval) list result" where
  "initDataSource_on eng d dataSources ds =
     enter eng d
       (bindE (get_prop ds ''type'') (\<lambda>ds_type.
        bindE
          (if ds_type = JStr ''static'' then
             bindE (get_prop ds ''config'') (\<lambda>ds_config. js_in ''data'' ds_config)
           else Inr False) (\<lambda>static_with_data.
        if static_with_data then
          bindE (get_prop ds ''id'') (\<lambda>ds_id.
          bindE (get_prop ds ''config'') (\<lambda>ds_config.
          bindE (get_prop ds_config ''data'') (\<lambda>ds_data.
          call_builtin eng (Suc d) (js_map_set dataSources ds_id ds_data))))
        else
          bindE (get_prop ds ''id'') (\<lambda>ds_id.
          call_builtin eng (Suc d) (js_map_set dataSources ds_id JNull)))))"

text \<open>
  \<open>parsePageConfig\<close> running in frame \<open>d\<close>. Building the \<open>ParseError\<close> calls its
  constructor, which calls the constructor of \<^verbatim>\<open>Error\<close>.
\<close>

definition parsePageConfig_on ::
  "engine \<Rightarrow> nat \<Rightarrow> jsval \<Rightarrow> string list \<Rightarrow> ParsedPage result" where
  "parsePageConfig_on eng d config userPermissions =
     enter eng d
       (bindE (validatePageConfig_on eng (Suc d) config) (\<lambda>validation.
        if \<not> valid validation then
          enter eng (Suc d)
            (enter eng (d + 2)
               (Inl (ParseError MsgPageValidationFailed [] (errors validation))))
        else
          bindE (call_builtin eng (Suc d) (set userPermissions)) (\<lambda>permissions.
          bindE (get_prop config ''components'') (\<lambda>config_components.
          bindE (array_of config_components) (\<lambda>cs.
          bindE
            (enter eng (Suc d)
               (mapE (\<lambda>comp.
                  enter eng (d + 2) (parseComponent_on eng (d + 3) comp permissions)) cs))
            (\<lambda>components.
          bindE (call_builtin eng (Suc d) []) (\<lambda>empty_map.
          bindE (get_prop config ''dataSource'') (\<lambda>config_dataSource.
          bindE
            (if truthy config_dataSource then
               bindE (array_of config_dataSource) (\<lambda>dss.
               enter eng (Suc d) (foldE (initDataSource_on eng (d + 2)) dss empty_map))
             else Inr empty_map) (\<lambda>dataSources.
          bindE (get_prop config ''pageCode'') (\<lambda>config_pageCode.
          bindE (get_prop config ''title'') (\<lambda>config_title.
          Inr \<lparr>pp_pageCode = config_pageCode, pp_title = config_title,
               pp_components = components, pp_dataSources = dataSources\<rparr>)))))))))))"

section \<open>Renderer: resolving a binding expression\<close>

record DataContext =
  dataSources :: "(string \<times> jsval) list"
  formData :: "(string \<times> jsval) list"
  params :: "(string \<times> jsval) list"

text \<open>\<^verbatim>\<open>expression.split('.')\<close>: never empty; an empty expression gives one empty part.\<close>

fun split_dot :: "string \<Rightarrow> string list" where
  "split_dot [] = [[]]"
| "split_dot (c # cs) =
     (if c = CHR ''.'' then [] # split_dot cs
      else (case split_dot cs of [] \<Rightarrow> [[c]] | p # ps \<Rightarrow> (c # p) # ps))"

text \<open>
  \<^verbatim>\<open>value[part]\<close> with an arbitrary \<open>part\<close> also reaches what an object inherits from the
  built-in prototypes. The built-in objects are not part of the source, so what can be
  read of them is a parameter: the names of the function-valued members of
  \<^verbatim>\<open>Object.prototype\<close> and of \<^verbatim>\<open>Array.prototype\<close>, and whether \<^verbatim>\<open>Object.prototype\<close> has
  the \<^verbatim>\<open>__proto__\<close> accessor.
\<close>

record runtime =
  object_members :: "string list"
  array_members :: "string list"
  proto_accessor :: bool

text \<open>
  The values the loop variable \<^verbatim>\<open>value\<close> can hold: the context object itself (the test
  \<^verbatim>\<open>value === context\<close> is true for it only), a JSON value, one of the two prototype
  objects, or a built-in function found on one of them.
\<close>

datatype rvalue =
    TheContext
  | Value jsval
  | ObjectPrototype
  | ArrayPrototype
  | ObjectMember string
  | ArrayMember string

text \<open>
  An object whose members can be read, and the outcome of \<^verbatim>\<open>typeof value === 'object'\<close>:
  false, true for \<^verbatim>\<open>null\<close> (which has no members), or true for an object.
\<close>

datatype objref =
    ContextRef
  | ObjectRef "(string \<times> jsval) list"
  | ArrayRef "jsval list"
  | ObjectPrototypeRef
  | ArrayPrototypeRef

datatype object_test = NotAnObject | NullObject | AnObject objref

fun typeof_object :: "rvalue \<Rightarrow> object_test" where
  "typeof_object TheContext = AnObject ContextRef"
| "typeof_object (Value JNull) = NullObject"
| "typeof_object (Value (JObj fs)) = AnObject (ObjectRef fs)"
| "typeof_object (Value (JArr xs)) = AnObject (ArrayRef xs)"
| "typeof_object (Value JUndefined) = NotAnObject"
| "typeof_object (Value (JBool b)) = NotAnObject"
| "typeof_object (Value (JNum n)) = NotAnObject"
| "typeof_object (Value (JStr s)) = NotAnObject"
| "typeof_object ObjectPrototype = AnObject ObjectPrototypeRef"
| "typeof_object ArrayPrototype = AnObject ArrayPrototypeRef"
| "typeof_object (ObjectMember name) = NotAnObject"
| "typeof_object (ArrayMember name) = NotAnObject"

text \<open>
  A member looked up on \<^verbatim>\<open>Object.prototype\<close>, for a receiver whose prototype is
  \<open>receiver_proto\<close> (what the \<^verbatim>\<open>__proto__\<close> accessor returns), and on \<^verbatim>\<open>Array.prototype\<close>
  and then \<^verbatim>\<open>Object.prototype\<close>.
\<close>

definition from_Object_prototype :: "runtime \<Rightarrow> rvalue \<Rightarrow> string \<Rightarrow> rvalue" where
  "from_Object_prototype rt receiver_proto part =
     (if part = ''__proto__'' \<and> proto_accessor rt then receiver_proto
      else if part \<in> set (object_members rt) then ObjectMember part
      else Value JUndefined)"

definition from_Array_prototype :: "runtime \<Rightarrow> rvalue \<Rightarrow> string \<Rightarrow> rvalue" where
  "from_Array_prototype rt receiver_proto part =
     (if part \<in> set (array_members rt) then ArrayMember part
      else from_Object_prototype rt receiver_proto part)"

text \<open>
  The assignment in the loop body, for a \<^verbatim>\<open>value\<close> that is an object:
  \<^verbatim>\<open>Object.fromEntries(context.dataSources)\<close> for the part \<open>dataSources\<close> of the context
  object itself, and \<^verbatim>\<open>value[part]\<close> otherwise: an own property first, an inherited
  member next.
\<close>

fun member :: "runtime \<Rightarrow> DataContext \<Rightarrow> objref \<Rightarrow> string \<Rightarrow> rvalue" where
  "member rt context ContextRef part =
     (if part = ''dataSources'' then Value (JObj (dataSources context))
      else if part = ''formData'' then Value (JObj (formData context))
      else if part = ''params'' then Value (JObj (params context))
      else from_Object_prototype rt ObjectPrototype part)"
| "member rt context (ObjectRef fs) part =
     (case map_of fs part of
        Some v \<Rightarrow> Value v
      | None \<Rightarrow> from_Object_prototype rt ObjectPrototype part)"
| "member rt context (ArrayRef xs) part =
     (if part = ''length'' then Value (JNum (int (length xs)))
      else case array_index part of
             Some i \<Rightarrow> if i < length xs then Value (xs ! i)
                       else from_Array_prototype rt ArrayPrototype part
           | None \<Rightarrow> from_Array_prototype rt ArrayPrototype part)"
| "member rt context ObjectPrototypeRef part = from_Object_prototype rt (Value JNull) part"
| "member rt context ArrayPrototypeRef part =
     (if part = ''length'' then Value (JNum 0)
      else from_Array_prototype rt ObjectPrototype part)"

fun resolveParts :: "runtime \<Rightarrow> DataContext \<Rightarrow> rvalue \<Rightarrow> string list \<Rightarrow> rvalue result" where
  "resolveParts rt context v [] = Inr v"
| "resolveParts rt context v (part # parts) =
     (if v = Value JNull \<or> v = Value JUndefined then Inr (Value JUndefined)
      else case typeof_object v of
             AnObject ref \<Rightarrow> resolveParts rt context (member rt context ref part) parts
           | NullObject \<Rightarrow> Inl TypeError
           | NotAnObject \<Rightarrow> Inr (Value JUndefined))"

definition resolveBinding :: "runtime \<Rightarrow> string \<Rightarrow> DataContext \<Rightarrow> rvalue result" where
  "resolveBinding rt expression context =
     resolveParts rt context TheContext (split_dot expression)"

section \<open>Notions used to state the properties\<close>

text \<open>
  The errors \<open>validateComponentConfig\<close> reports for the fields \<open>id\<close>, \<open>type\<close> and
  \<open>props\<close> of a component object, in that order.
\<close>

definition component_field_errors :: "jsval \<Rightarrow> string \<Rightarrow> ValidationError list" where
  "component_field_errors config pth =
     (if \<not> truthy (own_prop config ''id'') \<or> typeof (own_prop config ''id'') \<noteq> TString then
        [\<lparr>path = pth @ ''.id'', message = MsgComponentIdRequired, code = ''REQUIRED_FIELD''\<rparr>]
      else [])
     @ (if \<not> truthy (own_prop config ''type'') \<or> typeof (own_prop config ''type'') \<noteq> TString then
          [\<lparr>path = pth @ ''.type'', message = MsgComponentTypeRequired,
            code = ''REQUIRED_FIELD''\<rparr>]
        else if \<not> componentTypeSet_has (own_prop config ''type'') then
          [\<lparr>path = pth @ ''.type'',
            message = MsgUnsupportedComponentType (own_prop config ''type''),
            code = ''UNSUPPORTED_TYPE''\<rparr>]
        else [])
     @ (if own_prop config ''props'' \<noteq> JUndefined \<and> typeof (own_prop config ''props'') \<noteq> TObject then
          [\<lparr>path = pth @ ''.props'', message = MsgPropsMustBeObject, code = ''INVALID_TYPE''\<rparr>]
        else [])"

text \<open>
  What \<open>initDataSource\<close> stores for a data source that passed validation: under its
  \<open>id\<close>, the \<open>data\<close> of its \<open>config\<close> when the type is \<open>static\<close> and \<open>config\<close> has a
  \<open>data\<close> key, and \<^verbatim>\<open>null\<close> otherwise.
\<close>

definition dataSource_entry :: "jsval \<Rightarrow> (jsval \<times> jsval) list \<Rightarrow> (jsval \<times> jsval) list" where
  "dataSource_entry ds m =
     js_map_set m (own_prop ds ''id'')
       (if own_prop ds ''type'' = JStr ''static''
           \<and> js_in ''data'' (own_prop ds ''config'') = Inr True
        then own_prop (own_prop ds ''config'') ''data'' else JNull)"

text \<open>
  The reading of "dotted-path traversal through the context object": the context seen as
  a plain nested object, and a walk that gives \<^verbatim>\<open>undefined\<close> as soon as the value at hand
  is \<^verbatim>\<open>null\<close>, \<^verbatim>\<open>undefined\<close> or not an object (a missing segment reads as
  \<^verbatim>\<open>undefined\<close>). The segments of an expression are what lies between its dots:
  joined with dots they give the expression back.
\<close>

definition context_object :: "DataContext \<Rightarrow> jsval" where
  "context_object context =
     JObj [(''dataSources'', JObj (dataSources context)),
           (''formData'', JObj (formData context)),
           (''params'', JObj (params context))]"

fun traverse_path :: "runtime \<Rightarrow> DataContext \<Rightarrow> rvalue \<Rightarrow> string list \<Rightarrow> rvalue" where
  "traverse_path rt context v [] = v"
| "traverse_path rt context v (segment # rest) =
     (case typeof_object v of
        AnObject ref \<Rightarrow> traverse_path rt context (member rt context ref segment) rest
      | _ \<Rightarrow> Value JUndefined)"

fun join_dots :: "string list \<Rightarrow> string" where
  "join_dots [] = []"
| "join_dots [p] = p"
| "join_dots (p # q # ps) = p @ ''.'' @ join_dots (q # ps)"

text \<open>
  A node of a component tree is addressed by the list of child indices that leads to it,
  in the configuration and in the parsed tree alike.
\<close>

fun component_at :: "jsval \<Rightarrow> nat list \<Rightarrow> jsval option" where
  "component_at c [] = Some c"
| "component_at c (i # p) =
     (case own_prop c ''children'' of
        JArr cs \<Rightarrow> if i < length cs then component_at (cs ! i) p else None
      | _ \<Rightarrow> None)"

fun parsed_at :: "ParsedComponent \<Rightarrow> nat list \<Rightarrow> ParsedComponent option" where
  "parsed_at pc [] = Some pc"
| "parsed_at pc (i # p) =
     (case pc_children pc of
        Some pcs \<Rightarrow> if i < length pcs then parsed_at (pcs ! i) p else None
      | None \<Rightarrow> None)"

text \<open>
  The permission rule in the words of the specification: the component passes when no
  permission is declared, when the declared permission is empty, or when it is in the
  caller's set.
\<close>

fun permission_passes :: "string set \<Rightarrow> jsval \<Rightarrow> bool" where
  "permission_passes permissions JUndefined = True"
| "permission_passes permissions (JStr s) = (s = [] \<or> s \<in> permissions)"
| "permission_passes permissions _ = False"

text \<open>
  Depth-first pre-order traversal of a list of component trees, children in array order:
  each component, then the traversal of its children, then the components after it.
\<close>

fun children_of :: "jsval \<Rightarrow> jsval list" where
  "children_of c = (case own_prop c ''children'' of JArr cs \<Rightarrow> cs | _ \<Rightarrow> [])"

lemma size_children_of: "size_list size (children_of c) \<le> size c"
  using size_own_prop [of c "''children''"]
  by (cases "own_prop c ''children''") auto

function preorder :: "jsval list \<Rightarrow> jsval list" where
  "preorder [] = []"
| "preorder (c # cs) = c # preorder (children_of c) @ preorder cs"
  by pat_completeness auto
termination
proof (relation "measure (size_list size)", goal_cases)
  case 1
  show ?case by simp
next
  case (2 c cs)
  then show ?case using size_children_of [of c] by simp
next
  case (3 c cs)
  then show ?case by simp
qed

text \<open>
  The fields bound to one data source: the \<open>dataBinding.field\<close> of every component of the
  traversal that carries a \<open>dataBinding\<close> whose \<open>source\<close> is that id, in traversal order.
\<close>

definition bound_fields :: "jsval \<Rightarrow> jsval list \<Rightarrow> jsval list" where
  "bound_fields source nodes =
     map (\<lambda>c. own_prop (own_prop c ''dataBinding'') ''field'')
       (filter (\<lambda>c. own_prop c ''dataBinding'' \<noteq> JUndefined
                    \<and> own_prop (own_prop c ''dataBinding'') ''source'' = source) nodes)"

text \<open>
  What the collector relies on in the declared types: a \<open>ComponentConfig\<close> is an object
  whose \<open>children\<close>, when present, is an array and whose \<open>dataBinding\<close>, when present, is
  an object with a string \<open>source\<close>; a \<open>PageConfig\<close> is an object whose \<open>components\<close> is an
  array of such components, at every depth.
\<close>

definition is_ComponentConfig :: "jsval \<Rightarrow> bool" where
  "is_ComponentConfig c \<longleftrightarrow>
     truthy c \<and> typeof c = TObject
     \<and> (own_prop c ''children'' = JUndefined \<or> isArray (own_prop c ''children''))
     \<and> (own_prop c ''dataBinding'' = JUndefined
        \<or> (truthy (own_prop c ''dataBinding'') \<and> typeof (own_prop c ''dataBinding'') = TObject
           \<and> typeof (own_prop (own_prop c ''dataBinding'') ''source'') = TString))"

fun components_of :: "jsval \<Rightarrow> jsval list" where
  "components_of config = (case own_prop config ''components'' of JArr cs \<Rightarrow> cs | _ \<Rightarrow> [])"

definition is_PageConfig :: "jsval \<Rightarrow> bool" where
  "is_PageConfig config \<longleftrightarrow>
     truthy config \<and> typeof config = TObject
     \<and> isArray (own_prop config ''components'')
     \<and> list_all is_ComponentConfig (preorder (components_of config))"

text \<open>
  Appending fields to the list a map holds under a key; no entry is made for no fields.
\<close>

definition add_fields :: "('k \<Rightarrow> 'v list option) \<Rightarrow> 'k \<Rightarrow> 'v list \<Rightarrow> 'v list option" where
  "add_fields f k new =
     (if new = [] then f k else Some ((case f k of None \<Rightarrow> [] | Some old \<Rightarrow> old) @ new))"

text \<open>
  A run under engine limits is the run without them, cut short by a \<^verbatim>\<open>RangeError\<close> or
  not at all.
\<close>

definition cut_short :: "'a result \<Rightarrow> 'a result \<Rightarrow> bool" where
  "cut_short b b' \<longleftrightarrow> b = Inl RangeError \<or> b = b'"

text \<open>The parts of \<open>validateComponentConfig_on\<close>: the checks of the fields, and of the children.\<close>

definition field_errors_on :: "engine \<Rightarrow> nat \<Rightarrow> jsval \<Rightarrow> string \<Rightarrow> ValidationError list result" where
  "field_errors_on eng d config pth =
     bindE
       (if \<not> truthy (own_prop config ''id'') \<or> typeof (own_prop config ''id'') \<noteq> TString then
          call_builtin eng (Suc d)
            [\<lparr>path = pth @ ''.id'', message = MsgComponentIdRequired,
              code = ''REQUIRED_FIELD''\<rparr>]
        else Inr []) (\<lambda>id_errors.
     bindE
       (if \<not> truthy (own_prop config ''type'') \<or> typeof (own_prop config ''type'') \<noteq> TString then
          call_builtin eng (Suc d)
            [\<lparr>path = pth @ ''.type'', message = MsgComponentTypeRequired,
              code = ''REQUIRED_FIELD''\<rparr>]
        else
          bindE (call_builtin eng (Suc d) (componentTypeSet_has (own_prop config ''type'')))
            (\<lambda>supported.
          if \<not> supported then
            call_builtin eng (Suc d)
              [\<lparr>path = pth @ ''.type'',
                message = MsgUnsupportedComponentType (own_prop config ''type''),
                code = ''UNSUPPORTED_TYPE''\<rparr>]
          else Inr [])) (\<lambda>type_errors.
     bindE
       (if own_prop config ''props'' \<noteq> JUndefined \<and> typeof (own_prop config ''props'') \<noteq> TObject
        then
          call_builtin eng (Suc d)
            [\<lparr>path = pth @ ''.props'', message = MsgPropsMustBeObject, code = ''INVALID_TYPE''\<rparr>]
        else Inr []) (\<lambda>props_errors.
     Inr (id_errors @ type_errors @ props_errors))))"

definition children_errors_on :: "engine \<Rightarrow> nat \<Rightarrow> string \<Rightarrow> jsval \<Rightarrow> ValidationError list result" where
  "children_errors_on eng d pth comp_children =
     (if comp_children \<noteq> JUndefined then
        bindE (call_builtin eng (Suc d) (isArray comp_children)) (\<lambda>is_array.
        if \<not> is_array then
          call_builtin eng (Suc d)
            [\<lparr>path = pth @ ''.children'', message = MsgChildrenMustBeArray,
              code = ''INVALID_TYPE''\<rparr>]
        else
          bindE (array_of comp_children) (\<lambda>cs.
          enter eng (Suc d)
            (bindE (mapE (\<lambda>(index, child).
                      enter eng (d + 2)
                        (bindE (validateComponentConfig_on eng (d + 3) child
                                  (pth @ ''.children['' @ string_of_nat index @ '']''))
                           (\<lambda>childErrors. push_spread eng (d + 3) childErrors)))
                    (enumerate 0 cs)) (\<lambda>pushed.
             Inr (concat pushed)))))
      else Inr [])"

text \<open>The parts of \<open>validatePageConfig_on\<close>.\<close>

definition page_field_errors_on :: "engine \<Rightarrow> nat \<Rightarrow> jsval \<Rightarrow> ValidationError list result" where
  "page_field_errors_on eng d config =
     bindE
       (if \<not> truthy (own_prop config ''pageCode'')
           \<or> typeof (own_prop config ''pageCode'') \<noteq> TString then
          call_builtin eng (Suc d)
            [\<lparr>path = ''pageCode'', message = MsgPageCodeRequired, code = ''REQUIRED_FIELD''\<rparr>]
        else Inr []) (\<lambda>pageCode_errors.
     bindE
       (if \<not> truthy (own_prop config ''title'') \<or> typeof (own_prop config ''title'') \<noteq> TString then
          call_builtin eng (Suc d)
            [\<lparr>path = ''title'', message = MsgTitleRequired, code = ''REQUIRED_FIELD''\<rparr>]
        else Inr []) (\<lambda>title_errors.
     Inr (pageCode_errors @ title_errors)))"

definition components_errors_on :: "engine \<Rightarrow> nat \<Rightarrow> jsval \<Rightarrow> ValidationError list result" where
  "components_errors_on eng d components =
     bindE (call_builtin eng (Suc d) (isArray components)) (\<lambda>components_is_array.
     if \<not> components_is_array then
       call_builtin eng (Suc d)
         [\<lparr>path = ''components'', message = MsgComponentsMustBeArray, code = ''INVALID_TYPE''\<rparr>]
     else
       bindE (array_of components) (\<lambda>cs.
       enter eng (Suc d)
         (bindE (mapE (\<lambda>(index, comp).
                   enter eng (d + 2)
                     (bindE (validateComponentConfig_on eng (d + 3) comp
                               (''components['' @ string_of_nat index @ '']''))
                        (\<lambda>compErrors. push_spread eng (d + 3) compErrors)))
                 (enumerate 0 cs)) (\<lambda>pushed.
          Inr (concat pushed)))))"

definition dataSource_errors_on :: "engine \<Rightarrow> nat \<Rightarrow> jsval \<Rightarrow> ValidationError list result" where
  "dataSource_errors_on eng d dataSource =
     (if dataSource \<noteq> JUndefined then
        bindE (call_builtin eng (Suc d) (isArray dataSource)) (\<lambda>dataSource_is_array.
        if \<not> dataSource_is_array then
          call_builtin eng (Suc d)
            [\<lparr>path = ''dataSource'', message = MsgDataSourceMustBeArray, code = ''INVALID_TYPE''\<rparr>]
        else
          bindE (array_of dataSource) (\<lambda>dss.
          enter eng (Suc d)
            (bindE (mapE (\<lambda>(index, ds).
                      enter eng (d + 2)
                        (bindE (validateDataSourceConfig_on eng (d + 3) ds
                                  (''dataSource['' @ string_of_nat index @ '']''))
                           (\<lambda>dsErrors. push_spread eng (d + 3) dsErrors)))
                    (enumerate 0 dss)) (\<lambda>pushed.
             Inr (concat pushed)))))
      else Inr [])"

text \<open>Containers nested \<open>n\<close> deep: a valid component for every \<open>n\<close>.\<close>

fun nested :: "nat \<Rightarrow> jsval" where
  "nested 0 = JObj [(''id'', JStr ''c''), (''type'', JStr ''MContainer'')]"
| "nested (Suc n) =
     JObj [(''id'', JStr ''c''), (''type'', JStr ''MContainer''),
           (''children'', JArr [nested n])]"

section \<open>Validation with room for every call\<close>

lemma get_prop_object:
  "truthy v \<Longrightarrow> typeof v = TObject \<Longrightarrow> get_prop v k = Inr (own_prop v k)"
  by (cases v) auto

lemma isArray_iff: "isArray v \<longleftrightarrow> (\<exists>cs. v = JArr cs)"
  by (cases v) auto

lemma mapE_total:
  "(\<And>x. x \<in> set xs \<Longrightarrow> \<exists>y. f x = Inr y) \<Longrightarrow> \<exists>ys. mapE f xs = Inr ys"
proof (induction xs)
  case Nil
  show ?case by simp
next
  case (Cons x xs)
  from Cons.prems obtain y where y: "f x = Inr y" by auto
  from Cons.IH Cons.prems obtain ys where "mapE f xs = Inr ys" by auto
  with y show ?case by simp
qed

lemma mapE_Inr_iff: "mapE f xs = Inr ys \<longleftrightarrow> list_all2 (\<lambda>x y. f x = Inr y) xs ys"
proof (induction xs arbitrary: ys)
  case Nil
  show ?case by auto
next
  case (Cons x xs)
  show ?case
  proof (cases "f x")
    case (Inl e)
    then show ?thesis by (auto simp: list_all2_Cons1)
  next
    case fx: (Inr y)
    show ?thesis
    proof (cases "mapE f xs")
      case (Inl e)
      with fx Cons.IH show ?thesis by (auto simp: list_all2_Cons1)
    next
      case (Inr zs)
      with fx Cons.IH show ?thesis by (auto simp: list_all2_Cons1)
    qed
  qed
qed

lemma validateComponentConfig_total: "\<exists>es. validateComponentConfig config pth = Inr es"
proof (induction config pth rule: validateComponentConfig.induct)
  case (1 config pth)
  show ?case
  proof (cases "\<not> truthy config \<or> typeof config \<noteq> TObject")
    case True
    then show ?thesis by (simp add: validateComponentConfig.simps [of config pth])
  next
    case False
    then have obj: "truthy config" "typeof config = TObject" by auto
    note gp = get_prop_object [OF obj]
    show ?thesis
    proof (cases "own_prop config ''children''")
      case (JArr cs)
      have "\<exists>ys. mapE (\<lambda>(index, child).
                         validateComponentConfig child
                           (pth @ ''.children['' @ string_of_nat index @ '']''))
                       (enumerate 0 cs) = Inr ys"
      proof (rule mapE_total)
        fix x assume x: "x \<in> set (enumerate 0 cs)"
        obtain index child where xe: "x = (index, child)" by (cases x)
        have "\<exists>y. validateComponentConfig child
                   (pth @ ''.children['' @ string_of_nat index @ '']'') = Inr y"
          by (rule "1.IH" [OF False gp gp gp gp, of cs x]) (use JArr x xe in auto)
        with xe show "\<exists>y. (case x of (index, child) \<Rightarrow>
                 validateComponentConfig child
                   (pth @ ''.children['' @ string_of_nat index @ '']'')) = Inr y"
          by simp
      qed
      with JArr False gp show ?thesis
        by (auto simp: validateComponentConfig.simps [of config pth])
    qed (use False gp in \<open>simp_all add: validateComponentConfig.simps [of config pth]\<close>)
  qed
qed

lemma validateDataSourceConfig_total: "\<exists>es. validateDataSourceConfig config pth = Inr es"
proof (cases "\<not> truthy config \<or> typeof config \<noteq> TObject")
  case True
  then show ?thesis by (simp add: validateDataSourceConfig.simps)
next
  case False
  then have "truthy config" "typeof config = TObject" by auto
  note gp = get_prop_object [OF this]
  from False show ?thesis by (simp add: validateDataSourceConfig.simps gp)
qed

lemma validate_components_total:
  "\<exists>ys. mapE (\<lambda>(index, comp). validateComponentConfig comp (f index)) xs = Inr ys"
  by (rule mapE_total) (auto simp: validateComponentConfig_total)

lemma validate_dataSources_total:
  "\<exists>ys. mapE (\<lambda>(index, ds). validateDataSourceConfig ds (f index)) xs = Inr ys"
  by (rule mapE_total) (auto simp: validateDataSourceConfig_total)

lemma validatePageConfig_report:
  "\<exists>r. validatePageConfig config = Inr r
       \<and> valid r = (length (errors r) = 0)
       \<and> (config = JNull \<or> typeof config \<noteq> TObject \<longrightarrow>
            r = \<lparr>valid = False,
                 errors = [\<lparr>path = '''', message = MsgConfigMustBeObject,
                            code = ''INVALID_CONFIG''\<rparr>]\<rparr>)"
proof (cases "\<not> truthy config \<or> typeof config \<noteq> TObject")
  case True
  then show ?thesis by (simp add: validatePageConfig_def)
next
  case False
  then have obj: "truthy config" "typeof config = TObject" by auto
  note gp = get_prop_object [OF obj]
  from obj have nn: "config \<noteq> JNull" by auto
  have "\<exists>ces. (if \<not> isArray (own_prop config ''components'') then
             Inr [\<lparr>path = ''components'', message = MsgComponentsMustBeArray,
                   code = ''INVALID_TYPE''\<rparr>]
           else
             bindE (array_of (own_prop config ''components'')) (\<lambda>cs.
             bindE (mapE (\<lambda>(index, comp).
                      validateComponentConfig comp
                        (''components['' @ string_of_nat index @ '']''))
                    (enumerate 0 cs)) (\<lambda>compErrors.
             Inr (concat compErrors)))) = Inr ces"
  proof (cases "own_prop config ''components''")
    case (JArr cs)
    from validate_components_total [of "\<lambda>index. ''components['' @ string_of_nat index @ '']''" "enumerate 0 cs"]
    show ?thesis using JArr by auto
  qed simp_all
  then obtain ces where ces: "(if \<not> isArray (own_prop config ''components'') then
             Inr [\<lparr>path = ''components'', message = MsgComponentsMustBeArray,
                   code = ''INVALID_TYPE''\<rparr>]
           else
             bindE (array_of (own_prop config ''components'')) (\<lambda>cs.
             bindE (mapE (\<lambda>(index, comp).
                      validateComponentConfig comp
                        (''components['' @ string_of_nat index @ '']''))
                    (enumerate 0 cs)) (\<lambda>compErrors.
             Inr (concat compErrors)))) = Inr ces" ..
  have "\<exists>des. (if own_prop config ''dataSource'' \<noteq> JUndefined then
             (if \<not> isArray (own_prop config ''dataSource'') then
                Inr [\<lparr>path = ''dataSource'', message = MsgDataSourceMustBeArray,
                      code = ''INVALID_TYPE''\<rparr>]
              else
                bindE (array_of (own_prop config ''dataSource'')) (\<lambda>dss.
                bindE (mapE (\<lambda>(index, ds).
                         validateDataSourceConfig ds
                           (''dataSource['' @ string_of_nat index @ '']''))
                       (enumerate 0 dss)) (\<lambda>dsErrors.
                Inr (concat dsErrors))))
           else Inr []) = Inr des"
  proof (cases "own_prop config ''dataSource''")
    case (JArr dss)
    from validate_dataSources_total [of "\<lambda>index. ''dataSource['' @ string_of_nat index @ '']''" "enumerate 0 dss"]
    show ?thesis using JArr by auto
  qed simp_all
  then obtain des where des: "(if own_prop config ''dataSource'' \<noteq> JUndefined then
             (if \<not> isArray (own_prop config ''dataSource'') then
                Inr [\<lparr>path = ''dataSource'', message = MsgDataSourceMustBeArray,
                      code = ''INVALID_TYPE''\<rparr>]
              else
                bindE (array_of (own_prop config ''dataSource'')) (\<lambda>dss.
                bindE (mapE (\<lambda>(index, ds).
                         validateDataSourceConfig ds
                           (''dataSource['' @ string_of_nat index @ '']''))
                       (enumerate 0 dss)) (\<lambda>dsErrors.
                Inr (concat dsErrors))))
           else Inr []) = Inr des" ..
  from False nn show ?thesis
    unfolding validatePageConfig_def by (simp add: gp ces des Let_def)
qed

section \<open>Shape of a component's error list\<close>

lemma validateComponentConfig_non_object:
  "\<not> truthy config \<or> typeof config \<noteq> TObject \<Longrightarrow>
   validateComponentConfig config pth =
     Inr [\<lparr>path = pth, message = MsgComponentMustBeObject, code = ''INVALID_CONFIG''\<rparr>]"
  by (simp add: validateComponentConfig.simps [of config pth])

lemma validateComponentConfig_object:
  assumes obj: "truthy config" "typeof config = TObject"
  shows "validateComponentConfig config pth =
     bindE
       (if own_prop config ''children'' \<noteq> JUndefined then
          (if \<not> isArray (own_prop config ''children'') then
             Inr [\<lparr>path = pth @ ''.children'', message = MsgChildrenMustBeArray,
                   code = ''INVALID_TYPE''\<rparr>]
           else
             bindE (array_of (own_prop config ''children'')) (\<lambda>cs.
             bindE (mapE (\<lambda>(index, child).
                      validateComponentConfig child
                        (pth @ ''.children['' @ string_of_nat index @ '']''))
                    (enumerate 0 cs)) (\<lambda>childErrors.
             Inr (concat childErrors))))
        else Inr [])
       (\<lambda>children_errors. Inr (component_field_errors config pth @ children_errors))"
  using obj
  by (simp add: validateComponentConfig.simps [of config pth] get_prop_object [OF obj]
        component_field_errors_def)

lemma validateComponentConfig_paths:
  "validateComponentConfig config pth = Inr es \<Longrightarrow> e \<in> set es \<Longrightarrow> \<exists>sfx. path e = pth @ sfx"
proof (induction config pth arbitrary: es e rule: validateComponentConfig.induct)
  case (1 config pth)
  show ?case
  proof (cases "\<not> truthy config \<or> typeof config \<noteq> TObject")
    case True
    from "1.prems" validateComponentConfig_non_object [OF True, of pth] show ?thesis by auto
  next
    case False
    then have obj: "truthy config" "typeof config = TObject" by auto
    note gp = get_prop_object [OF obj]
    note unf = validateComponentConfig_object [OF obj, of pth]
    have fe: "\<exists>sfx. path e = pth @ sfx" if "e \<in> set (component_field_errors config pth)"
      using that by (auto simp: component_field_errors_def split: if_splits)
    show ?thesis
    proof (cases "own_prop config ''children''")
      case (JArr cs)
      from "1.prems"(1) unf JArr obtain ys where
        ys: "mapE (\<lambda>(index, child). validateComponentConfig child
                     (pth @ ''.children['' @ string_of_nat index @ '']'')) (enumerate 0 cs) = Inr ys"
        and es: "es = component_field_errors config pth @ concat ys"
        by (cases "mapE (\<lambda>(index, child). validateComponentConfig child
                     (pth @ ''.children['' @ string_of_nat index @ '']'')) (enumerate 0 cs)") auto
      from "1.prems"(2) es consider "e \<in> set (component_field_errors config pth)"
        | "e \<in> set (concat ys)" by auto
      then show ?thesis
      proof cases
        case 1
        then show ?thesis by (rule fe)
      next
        case 2
        then obtain zs where "zs \<in> set ys" "e \<in> set zs" by auto
        then obtain j where j: "j < length ys" "e \<in> set (ys ! j)"
          by (metis in_set_conv_nth)
        from ys have la: "list_all2 (\<lambda>x y. (case x of (index, child) \<Rightarrow>
              validateComponentConfig child
                (pth @ ''.children['' @ string_of_nat index @ '']'')) = Inr y) (enumerate 0 cs) ys"
          by (simp add: mapE_Inr_iff)
        then have len: "length ys = length cs" by (auto dest: list_all2_lengthD)
        from la j len have call: "validateComponentConfig (cs ! j)
              (pth @ ''.children['' @ string_of_nat j @ '']'') = Inr (ys ! j)"
          by (auto simp: list_all2_conv_all_nth nth_enumerate_eq)
        have mem: "(j, cs ! j) \<in> set (enumerate 0 cs)"
          using j len by (auto simp: in_set_enumerate_eq)
        have "\<exists>sfx. path e = (pth @ ''.children['' @ string_of_nat j @ '']'') @ sfx"
          by (rule "1.IH" [OF False gp gp gp gp _ _ _ mem refl call j(2)])
             (use JArr in auto)
        then show ?thesis by auto
      qed
    next
      case JUndefined
      with "1.prems" unf fe show ?thesis by auto
    next
      case JNull
      with "1.prems" unf fe show ?thesis by auto
    next
      case (JBool b)
      with "1.prems" unf fe show ?thesis by auto
    next
      case (JNum n)
      with "1.prems" unf fe show ?thesis by auto
    next
      case (JStr s)
      with "1.prems" unf fe show ?thesis by auto
    next
      case (JObj fs)
      with "1.prems" unf fe show ?thesis by auto
    qed
  qed
qed

lemma validateComponentConfig_split:
  assumes obj: "truthy config" "typeof config = TObject"
  shows "\<exists>ces. validateComponentConfig config pth = Inr (component_field_errors config pth @ ces)
            \<and> (\<forall>e \<in> set ces. \<exists>sfx. path e = pth @ ''.children'' @ sfx)"
proof -
  note unf = validateComponentConfig_object [OF obj, of pth]
  show ?thesis
  proof (cases "own_prop config ''children''")
    case (JArr cs)
    from validate_components_total [of "\<lambda>index. pth @ ''.children['' @ string_of_nat index @ '']''" "enumerate 0 cs"]
    obtain ys where
      ys: "mapE (\<lambda>(index, child). validateComponentConfig child
                   (pth @ ''.children['' @ string_of_nat index @ '']'')) (enumerate 0 cs) = Inr ys"
      by auto
    then have la: "list_all2 (\<lambda>x y. (case x of (index, child) \<Rightarrow>
              validateComponentConfig child
                (pth @ ''.children['' @ string_of_nat index @ '']'')) = Inr y) (enumerate 0 cs) ys"
      by (simp add: mapE_Inr_iff)
    then have len: "length ys = length cs" by (auto dest: list_all2_lengthD)
    have "\<exists>sfx. path e = pth @ ''.children'' @ sfx" if "e \<in> set (concat ys)" for e
    proof -
      from that obtain zs where "zs \<in> set ys" "e \<in> set zs" by auto
      then obtain j where j: "j < length ys" "e \<in> set (ys ! j)"
        by (metis in_set_conv_nth)
      from la j len have "validateComponentConfig (cs ! j)
              (pth @ ''.children['' @ string_of_nat j @ '']'') = Inr (ys ! j)"
        by (auto simp: list_all2_conv_all_nth nth_enumerate_eq)
      from validateComponentConfig_paths [OF this j(2)] show ?thesis by auto
    qed
    with ys JArr unf show ?thesis by auto
  qed (use unf in auto)
qed

text \<open>
  C6 (as amended). For a component object whose \<open>type\<close> is a non-empty string outside
  the Component Type Registry, the only error at \<open>{path}.type\<close> is \<open>UNSUPPORTED_TYPE\<close>
  and \<open>isComponentTypeSupported\<close> is false for that string; when \<open>type\<close> is missing, not
  a string, or the empty string, the only error at that path is \<open>REQUIRED_FIELD\<close>; a
  registered type gives no error there. So the two codes are never raised together.
\<close>

theorem validateComponentConfig_type_errors:
  assumes "truthy config" and "typeof config = TObject"
  shows "\<exists>es. validateComponentConfig config pth = Inr es \<and>
     (\<forall>s. own_prop config ''type'' = JStr s \<and> s \<noteq> [] \<and> s \<notin> set SUPPORTED_COMPONENT_TYPES \<longrightarrow>
          filter (\<lambda>e. path e = pth @ ''.type'') es =
            [\<lparr>path = pth @ ''.type'', message = MsgUnsupportedComponentType (JStr s),
              code = ''UNSUPPORTED_TYPE''\<rparr>]
          \<and> \<not> isComponentTypeSupported s)
     \<and> ((\<forall>s. own_prop config ''type'' \<noteq> JStr s) \<or> own_prop config ''type'' = JStr [] \<longrightarrow>
          filter (\<lambda>e. path e = pth @ ''.type'') es =
            [\<lparr>path = pth @ ''.type'', message = MsgComponentTypeRequired,
              code = ''REQUIRED_FIELD''\<rparr>])
     \<and> (\<forall>s. own_prop config ''type'' = JStr s \<and> s \<in> set SUPPORTED_COMPONENT_TYPES \<longrightarrow>
          filter (\<lambda>e. path e = pth @ ''.type'') es = [])"
proof -
  from validateComponentConfig_split [OF assms, of pth] obtain ces where
    res: "validateComponentConfig config pth = Inr (component_field_errors config pth @ ces)"
    and ces: "\<forall>e \<in> set ces. \<exists>sfx. path e = pth @ ''.children'' @ sfx"
    by blast
  have "path e \<noteq> pth @ ''.type''" if "e \<in> set ces" for e
    using ces that by auto
  then have no_ces: "filter (\<lambda>e. path e = pth @ ''.type'') ces = []"
    by (simp add: filter_empty_conv)
  have empty_unsupported: "[] \<notin> set SUPPORTED_COMPONENT_TYPES"
    by (simp add: SUPPORTED_COMPONENT_TYPES_def)
  have fe: "filter (\<lambda>e. path e = pth @ ''.type'') (component_field_errors config pth) =
      (if \<not> truthy (own_prop config ''type'') \<or> typeof (own_prop config ''type'') \<noteq> TString then
          [\<lparr>path = pth @ ''.type'', message = MsgComponentTypeRequired,
            code = ''REQUIRED_FIELD''\<rparr>]
        else if \<not> componentTypeSet_has (own_prop config ''type'') then
          [\<lparr>path = pth @ ''.type'',
            message = MsgUnsupportedComponentType (own_prop config ''type''),
            code = ''UNSUPPORTED_TYPE''\<rparr>]
        else [])"
    by (simp add: component_field_errors_def)
  have a: "filter (\<lambda>e. path e = pth @ ''.type'') (component_field_errors config pth @ ces) =
      [\<lparr>path = pth @ ''.type'', message = MsgUnsupportedComponentType (JStr s),
         code = ''UNSUPPORTED_TYPE''\<rparr>] \<and> \<not> isComponentTypeSupported s"
    if "own_prop config ''type'' = JStr s" "s \<noteq> []" "s \<notin> set SUPPORTED_COMPONENT_TYPES" for s
    using that by (simp add: fe no_ces isComponentTypeSupported_def)
  have b: "filter (\<lambda>e. path e = pth @ ''.type'') (component_field_errors config pth @ ces) =
      [\<lparr>path = pth @ ''.type'', message = MsgComponentTypeRequired, code = ''REQUIRED_FIELD''\<rparr>]"
    if "(\<forall>s. own_prop config ''type'' \<noteq> JStr s) \<or> own_prop config ''type'' = JStr []"
    using that by (cases "own_prop config ''type''") (auto simp: fe no_ces)
  have c: "filter (\<lambda>e. path e = pth @ ''.type'') (component_field_errors config pth @ ces) = []"
    if "own_prop config ''type'' = JStr s" "s \<in> set SUPPORTED_COMPONENT_TYPES" for s
    using that empty_unsupported by (auto simp: fe no_ces)
  from res a b c show ?thesis by auto
qed

theorem validateComponentConfig_type_errors_witness:
  "truthy (JObj [(''id'', JStr ''c1''), (''type'', JStr ''Foo'')])
   \<and> typeof (JObj [(''id'', JStr ''c1''), (''type'', JStr ''Foo'')]) = TObject
   \<and> (\<exists>es. validateComponentConfig (JObj [(''id'', JStr ''c1''), (''type'', JStr ''Foo'')]) ''test''
              = Inr es
          \<and> filter (\<lambda>e. path e = ''test.type'') es =
               [\<lparr>path = ''test.type'', message = MsgUnsupportedComponentType (JStr ''Foo''),
                 code = ''UNSUPPORTED_TYPE''\<rparr>])
   \<and> \<not> isComponentTypeSupported ''Foo''"
  using validateComponentConfig_type_errors
          [of "JObj [(''id'', JStr ''c1''), (''type'', JStr ''Foo'')]" "''test''"]
  by (auto simp: SUPPORTED_COMPONENT_TYPES_def)

theorem validateComponentConfig_empty_type_counterexample:
  "own_prop (JObj [(''id'', JStr ''c1''), (''type'', JStr []), (''props'', JObj [])]) ''type''
     = JStr []
   \<and> [] \<notin> set SUPPORTED_COMPONENT_TYPES
   \<and> validateComponentConfig
        (JObj [(''id'', JStr ''c1''), (''type'', JStr []), (''props'', JObj [])])
        ''components[0]''
      = Inr [\<lparr>path = ''components[0].type'', message = MsgComponentTypeRequired,
               code = ''REQUIRED_FIELD''\<rparr>]"
  by (simp add: validateComponentConfig.simps SUPPORTED_COMPONENT_TYPES_def)

text \<open>
  C8. A component whose \<open>props\<close> is \<^verbatim>\<open>null\<close> passes validation without an error at
  \<open>{path}.props\<close>: \<^verbatim>\<open>typeof null\<close> is \<^verbatim>\<open>'object'\<close>, and the check on \<open>props\<close> has no
  test for \<^verbatim>\<open>null\<close>, unlike the checks on the component itself and on a data source's
  \<open>config\<close>. A \<open>props\<close> that is a string is reported.
\<close>

theorem validateComponentConfig_null_props:
  "own_prop (JObj [(''id'', JStr ''c1''), (''type'', JStr ''MButton''), (''props'', JNull)])
     ''props'' = JNull
   \<and> validateComponentConfig
        (JObj [(''id'', JStr ''c1''), (''type'', JStr ''MButton''), (''props'', JNull)])
        ''components[0]''
      = Inr []
   \<and> validateComponentConfig
        (JObj [(''id'', JStr ''c1''), (''type'', JStr ''MButton''), (''props'', JStr ''x'')])
        ''components[0]''
      = Inr [\<lparr>path = ''components[0].props'', message = MsgPropsMustBeObject,
               code = ''INVALID_TYPE''\<rparr>]"
  by (simp add: validateComponentConfig.simps SUPPORTED_COMPONENT_TYPES_def)

section \<open>Resolving a binding expression\<close>

lemma split_dot_not_Nil: "split_dot expression \<noteq> []"
  by (induction expression) (auto split: list.splits)

lemma join_dots_Cons: "ps \<noteq> [] \<Longrightarrow> join_dots (p # ps) = p @ ''.'' @ join_dots ps"
  by (cases ps) auto

lemma join_dots_split_dot: "join_dots (split_dot expression) = expression"
proof (induction expression)
  case Nil
  show ?case by simp
next
  case (Cons c cs)
  obtain p ps where ps: "split_dot cs = p # ps"
    using split_dot_not_Nil [of cs] by (cases "split_dot cs") auto
  show ?case
  proof (cases "c = CHR ''.''")
    case True
    with Cons.IH split_dot_not_Nil [of cs] show ?thesis by (simp add: join_dots_Cons)
  next
    case False
    with Cons.IH ps show ?thesis by (cases ps) auto
  qed
qed

lemma split_dot_no_dot: "part \<in> set (split_dot expression) \<Longrightarrow> CHR ''.'' \<notin> set part"
proof (induction expression arbitrary: part)
  case Nil
  then show ?case by simp
next
  case (Cons c cs)
  obtain p ps where ps: "split_dot cs = p # ps"
    using split_dot_not_Nil [of cs] by (cases "split_dot cs") auto
  with Cons show ?case by (auto split: if_splits)
qed

lemma member_context_object:
  "member rt context ContextRef part
     = member rt context
         (ObjectRef [(''dataSources'', JObj (dataSources context)),
                     (''formData'', JObj (formData context)),
                     (''params'', JObj (params context))]) part"
  by simp

lemma resolveParts_traverse:
  "resolveParts rt context v parts = Inr (traverse_path rt context v parts)"
proof (induction parts arbitrary: v)
  case Nil
  show ?case by simp
next
  case (Cons part parts)
  show ?case
  proof (cases "typeof_object v")
    case NotAnObject
    then show ?thesis by simp
  next
    case NullObject
    then have "v = Value JNull" by (cases v rule: typeof_object.cases) auto
    with NullObject show ?thesis by simp
  next
    case (AnObject ref)
    then have "v \<noteq> Value JNull" "v \<noteq> Value JUndefined" by auto
    with AnObject Cons.IH show ?thesis by simp
  qed
qed

text \<open>
  C9 (as amended). \<open>resolveBinding\<close> returns a value for every expression and context
  (it never raises). The parts it walks are the segments between the dots of the expression, and
  the value it returns is the one the segment-by-segment walk through the context
  reaches, each segment read as \<^verbatim>\<open>value[part]\<close> reads it: an own property, or else a
  member inherited from the built-in prototypes. The result is \<^verbatim>\<open>undefined\<close> when a
  segment is found in neither place or a value on the way is \<^verbatim>\<open>null\<close>, \<^verbatim>\<open>undefined\<close>
  or not an object, and the value at the end of the path otherwise. A segment that the
  data lacks and a prototype has does not give \<^verbatim>\<open>undefined\<close>: \<open>formData.constructor\<close>
  gives a built-in function on a form without a field \<open>constructor\<close>.
\<close>

theorem resolveBinding_traverses:
  "resolveBinding rt expression context =
     Inr (traverse_path rt context (Value (context_object context)) (split_dot expression))
   \<and> split_dot expression \<noteq> []
   \<and> join_dots (split_dot expression) = expression
   \<and> (\<forall>part \<in> set (split_dot expression). CHR ''.'' \<notin> set part)"
proof -
  obtain part parts where parts: "split_dot expression = part # parts"
    using split_dot_not_Nil [of expression] by (cases "split_dot expression") auto
  have "traverse_path rt context TheContext (part # parts)
      = traverse_path rt context (Value (context_object context)) (part # parts)"
    by (simp add: context_object_def)
  with parts have "resolveBinding rt expression context =
     Inr (traverse_path rt context (Value (context_object context)) (split_dot expression))"
    by (simp add: resolveBinding_def resolveParts_traverse)
  with split_dot_not_Nil join_dots_split_dot split_dot_no_dot show ?thesis by blast
qed

theorem resolveBinding_traverses_witness:
  "resolveBinding
     \<lparr>object_members = [''constructor'', ''toString''],
      array_members = [''constructor'', ''map''], proto_accessor = True\<rparr>
     ''dataSources.orders.0.id''
     \<lparr>dataSources = [(''orders'', JArr [JObj [(''id'', JNum 7)]])],
      formData = [(''name'', JStr ''n''), (''items'', JArr [])], params = []\<rparr>
     = Inr (Value (JNum 7))
   \<and> split_dot ''dataSources.orders.0.id'' = [''dataSources'', ''orders'', ''0'', ''id'']
   \<and> resolveBinding
     \<lparr>object_members = [''constructor'', ''toString''],
      array_members = [''constructor'', ''map''], proto_accessor = True\<rparr>
     ''formData.constructor''
     \<lparr>dataSources = [(''orders'', JArr [JObj [(''id'', JNum 7)]])],
      formData = [(''name'', JStr ''n''), (''items'', JArr [])], params = []\<rparr>
     = Inr (ObjectMember ''constructor'')
   \<and> resolveBinding
     \<lparr>object_members = [''constructor'', ''toString''],
      array_members = [''constructor'', ''map''], proto_accessor = True\<rparr>
     ''formData.__proto__.__proto__''
     \<lparr>dataSources = [(''orders'', JArr [JObj [(''id'', JNum 7)]])],
      formData = [(''name'', JStr ''n''), (''items'', JArr [])], params = []\<rparr>
     = Inr (Value JNull)
   \<and> resolveBinding
     \<lparr>object_members = [''constructor'', ''toString''],
      array_members = [''constructor'', ''map''], proto_accessor = True\<rparr>
     ''formData.items.map''
     \<lparr>dataSources = [(''orders'', JArr [JObj [(''id'', JNum 7)]])],
      formData = [(''name'', JStr ''n''), (''items'', JArr [])], params = []\<rparr>
     = Inr (ArrayMember ''map'')
   \<and> resolveBinding
     \<lparr>object_members = [''constructor'', ''toString''],
      array_members = [''constructor'', ''map''], proto_accessor = True\<rparr>
     ''formData.name.length''
     \<lparr>dataSources = [(''orders'', JArr [JObj [(''id'', JNum 7)]])],
      formData = [(''name'', JStr ''n''), (''items'', JArr [])], params = []\<rparr>
     = Inr (Value JUndefined)"
proof -
  let ?rt = "\<lparr>object_members = [''constructor'', ''toString''],
      array_members = [''constructor'', ''map''], proto_accessor = True\<rparr>"
  let ?ctx = "\<lparr>dataSources = [(''orders'', JArr [JObj [(''id'', JNum 7)]])],
      formData = [(''name'', JStr ''n''), (''items'', JArr [])], params = []\<rparr>"
  have s1: "split_dot ''dataSources.orders.0.id'' = [''dataSources'', ''orders'', ''0'', ''id'']"
    by simp
  have s2: "split_dot ''formData.constructor'' = [''formData'', ''constructor'']" by simp
  have s3: "split_dot ''formData.__proto__.__proto__'' = [''formData'', ''__proto__'', ''__proto__'']"
    by simp
  have s4: "split_dot ''formData.items.map'' = [''formData'', ''items'', ''map'']" by simp
  have s5: "split_dot ''formData.name.length'' = [''formData'', ''name'', ''length'']" by simp
  have zero: "array_index ''0'' = Some 0" by (simp add: array_index_def digit_val_def)
  from resolveBinding_traverses [of ?rt "''dataSources.orders.0.id''" ?ctx]
  have a: "resolveBinding ?rt ''dataSources.orders.0.id'' ?ctx = Inr (Value (JNum 7))"
    unfolding s1 by (simp add: context_object_def zero)
  from resolveBinding_traverses [of ?rt "''formData.constructor''" ?ctx]
  have b: "resolveBinding ?rt ''formData.constructor'' ?ctx = Inr (ObjectMember ''constructor'')"
    unfolding s2 by (simp add: context_object_def from_Object_prototype_def)
  from resolveBinding_traverses [of ?rt "''formData.__proto__.__proto__''" ?ctx]
  have c: "resolveBinding ?rt ''formData.__proto__.__proto__'' ?ctx = Inr (Value JNull)"
    unfolding s3 by (simp add: context_object_def from_Object_prototype_def)
  from resolveBinding_traverses [of ?rt "''formData.items.map''" ?ctx]
  have d: "resolveBinding ?rt ''formData.items.map'' ?ctx = Inr (ArrayMember ''map'')"
    unfolding s4
    by (simp add: context_object_def from_Array_prototype_def array_index_def digit_val_def)
  from resolveBinding_traverses [of ?rt "''formData.name.length''" ?ctx]
  have e: "resolveBinding ?rt ''formData.name.length'' ?ctx = Inr (Value JUndefined)"
    unfolding s5 by (simp add: context_object_def)
  from a s1 b c d e show ?thesis by simp
qed

theorem resolveBinding_inherited_counterexample:
  "map_of (formData \<lparr>dataSources = [], formData = [(''name'', JStr ''n'')], params = []\<rparr>)
     ''constructor'' = None
   \<and> resolveBinding
       \<lparr>object_members = [''constructor'', ''toString''],
        array_members = [''constructor'', ''map''], proto_accessor = True\<rparr>
       ''formData.constructor''
       \<lparr>dataSources = [], formData = [(''name'', JStr ''n'')], params = []\<rparr>
     = Inr (ObjectMember ''constructor'')
   \<and> ObjectMember ''constructor'' \<noteq> Value JUndefined"
  by (simp add: resolveBinding_def from_Object_prototype_def)

section \<open>A valid configuration parses\<close>

lemma bindE_Inr_iff: "bindE m f = Inr r \<longleftrightarrow> (\<exists>x. m = Inr x \<and> f x = Inr r)"
  by (cases m) auto

lemma mapE_enumerate_Inr:
  "mapE (\<lambda>(i, x). f i x) (enumerate 0 xs) = Inr ys \<longleftrightarrow>
     length ys = length xs \<and> (\<forall>i < length xs. f i (xs ! i) = Inr (ys ! i))"
  by (auto simp: mapE_Inr_iff list_all2_conv_all_nth nth_enumerate_eq)

lemma mapE_nth_Inr:
  "mapE f xs = Inr ys \<longleftrightarrow> length ys = length xs \<and> (\<forall>i < length xs. f (xs ! i) = Inr (ys ! i))"
  by (auto simp: mapE_Inr_iff list_all2_conv_all_nth)

lemma get_prop_defined:
  "config \<noteq> JUndefined \<Longrightarrow> config \<noteq> JNull \<Longrightarrow> get_prop config k = Inr (own_prop config k)"
  by (cases config) auto

lemma parseComponent_defined:
  assumes "config \<noteq> JUndefined" "config \<noteq> JNull"
  shows "parseComponent config permissions =
     bindE
       (if own_prop config ''children'' = JUndefined \<or> own_prop config ''children'' = JNull
        then Inr None
        else
          bindE (array_of (own_prop config ''children'')) (\<lambda>cs.
          bindE (mapE (\<lambda>child. parseComponent child permissions) cs) (\<lambda>pcs.
          Inr (Some pcs))))
       (\<lambda>children.
          Inr (ParsedComponent (own_prop config ''id'') (own_prop config ''type'')
                 (spread (own_prop config ''props'')) children
                 (if truthy (own_prop config ''permission'')
                     \<and> \<not> set_has permissions (own_prop config ''permission'')
                  then False else own_prop config ''visible'' \<noteq> JBool False)))"
  by (simp add: parseComponent.simps [of config permissions] get_prop_defined [OF assms] Let_def)

lemma parseComponent_undefined:
  "config = JUndefined \<or> config = JNull \<Longrightarrow> parseComponent config permissions = Inl TypeError"
  by (auto simp: parseComponent.simps [of config permissions])

lemma valid_component_children:
  assumes res: "validateComponentConfig config pth = Inr []"
  shows "truthy config \<and> typeof config = TObject
     \<and> component_field_errors config pth = []
     \<and> (own_prop config ''children'' = JUndefined
         \<or> (\<exists>cs. own_prop config ''children'' = JArr cs
               \<and> (\<forall>i < length cs. validateComponentConfig (cs ! i)
                      (pth @ ''.children['' @ string_of_nat i @ '']'') = Inr [])))"
proof -
  have obj: "truthy config" "typeof config = TObject"
    using res validateComponentConfig_non_object [of config pth] by auto
  note unf = validateComponentConfig_object [OF obj, of pth]
  show ?thesis
  proof (cases "own_prop config ''children''")
    case (JArr cs)
    from res unf JArr obtain ys where
      ys: "mapE (\<lambda>(index, child). validateComponentConfig child
                   (pth @ ''.children['' @ string_of_nat index @ '']'')) (enumerate 0 cs) = Inr ys"
      and es: "component_field_errors config pth @ concat ys = []"
      by (auto simp: bindE_Inr_iff)
    from ys have len: "length ys = length cs"
      and calls: "\<forall>i < length cs. validateComponentConfig (cs ! i)
                   (pth @ ''.children['' @ string_of_nat i @ '']'') = Inr (ys ! i)"
      by (simp_all add: mapE_enumerate_Inr)
    from es len have "\<forall>i < length cs. ys ! i = []" by simp
    with calls es obj JArr show ?thesis by simp
  qed (use res unf obj in \<open>auto simp: bindE_Inr_iff\<close>)
qed

lemma valid_component_parses:
  "validateComponentConfig config pth = Inr [] \<Longrightarrow>
   \<exists>pc. parseComponent config permissions = Inr pc"
proof (induction config pth rule: validateComponentConfig.induct)
  case (1 config pth)
  from valid_component_children [OF "1.prems"] have
    obj: "truthy config" "typeof config = TObject"
    and ch: "own_prop config ''children'' = JUndefined
         \<or> (\<exists>cs. own_prop config ''children'' = JArr cs
               \<and> (\<forall>i < length cs. validateComponentConfig (cs ! i)
                      (pth @ ''.children['' @ string_of_nat i @ '']'') = Inr []))"
    by auto
  from obj have nn: "config \<noteq> JUndefined" "config \<noteq> JNull" by auto
  note gp = get_prop_object [OF obj]
  note unf = parseComponent_defined [OF nn, of permissions]
  from ch show ?case
  proof
    assume "own_prop config ''children'' = JUndefined"
    with unf show ?thesis by simp
  next
    assume "\<exists>cs. own_prop config ''children'' = JArr cs
               \<and> (\<forall>i < length cs. validateComponentConfig (cs ! i)
                      (pth @ ''.children['' @ string_of_nat i @ '']'') = Inr [])"
    then obtain cs where cs: "own_prop config ''children'' = JArr cs"
      and valid: "\<forall>i < length cs. validateComponentConfig (cs ! i)
                      (pth @ ''.children['' @ string_of_nat i @ '']'') = Inr []"
      by blast
    have "\<exists>pcs. mapE (\<lambda>child. parseComponent child permissions) cs = Inr pcs"
    proof (rule mapE_total)
      fix child assume "child \<in> set cs"
      then obtain i where i: "i < length cs" "child = cs ! i" by (metis in_set_conv_nth)
      have mem: "(i, cs ! i) \<in> set (enumerate 0 cs)"
        using i by (auto simp: in_set_enumerate_eq)
      have "\<exists>pc. parseComponent (cs ! i) permissions = Inr pc"
        by (rule "1.IH" [OF _ gp gp gp gp _ _ _ mem refl])
           (use obj cs valid i in auto)
      with i show "\<exists>pc. parseComponent child permissions = Inr pc" by simp
    qed
    with unf cs show ?thesis by auto
  qed
qed

lemma valid_page:
  assumes res: "validatePageConfig config = Inr r" and ok: "valid r"
  shows "truthy config \<and> typeof config = TObject
     \<and> (\<exists>cs. own_prop config ''components'' = JArr cs
            \<and> (\<forall>i < length cs. validateComponentConfig (cs ! i)
                   (''components['' @ string_of_nat i @ '']'') = Inr []))
     \<and> (own_prop config ''dataSource'' = JUndefined
         \<or> (\<exists>dss. own_prop config ''dataSource'' = JArr dss
               \<and> (\<forall>i < length dss. validateDataSourceConfig (dss ! i)
                      (''dataSource['' @ string_of_nat i @ '']'') = Inr [])))"
proof -
  have obj: "truthy config" "typeof config = TObject"
    using res ok by (auto simp: validatePageConfig_def split: if_splits)
  note gp = get_prop_object [OF obj]
  define cpart where "cpart =
          (if \<not> isArray (own_prop config ''components'') then
             Inr [\<lparr>path = ''components'', message = MsgComponentsMustBeArray,
                   code = ''INVALID_TYPE''\<rparr>]
           else
             bindE (array_of (own_prop config ''components'')) (\<lambda>cs.
             bindE (mapE (\<lambda>(index, comp).
                      validateComponentConfig comp
                        (''components['' @ string_of_nat index @ '']''))
                    (enumerate 0 cs)) (\<lambda>compErrors.
             Inr (concat compErrors))))"
  define dpart where "dpart =
          (if own_prop config ''dataSource'' \<noteq> JUndefined then
             (if \<not> isArray (own_prop config ''dataSource'') then
                Inr [\<lparr>path = ''dataSource'', message = MsgDataSourceMustBeArray,
                      code = ''INVALID_TYPE''\<rparr>]
              else
                bindE (array_of (own_prop config ''dataSource'')) (\<lambda>dss.
                bindE (mapE (\<lambda>(index, ds).
                         validateDataSourceConfig ds
                           (''dataSource['' @ string_of_nat index @ '']''))
                       (enumerate 0 dss)) (\<lambda>dsErrors.
                Inr (concat dsErrors))))
           else Inr [])"
  define final where "final ce de =
        (let errs =
           (if \<not> truthy (own_prop config ''pageCode'')
               \<or> typeof (own_prop config ''pageCode'') \<noteq> TString then
              [\<lparr>path = ''pageCode'', message = MsgPageCodeRequired,
                code = ''REQUIRED_FIELD''\<rparr>]
            else [])
           @ (if \<not> truthy (own_prop config ''title'')
                 \<or> typeof (own_prop config ''title'') \<noteq> TString then
                [\<lparr>path = ''title'', message = MsgTitleRequired,
                  code = ''REQUIRED_FIELD''\<rparr>]
              else [])
           @ ce @ de
         in \<lparr>valid = (length errs = 0), errors = errs\<rparr>)" for ce de
  have unf: "validatePageConfig config =
      bindE cpart (\<lambda>ce. bindE dpart (\<lambda>de. Inr (final ce de)))"
    unfolding validatePageConfig_def cpart_def dpart_def final_def using obj
    by (simp add: gp)
  from res unf obtain ce where ce: "cpart = Inr ce"
    and r1: "bindE dpart (\<lambda>de. Inr (final ce de)) = Inr r"
    by (cases cpart) auto
  from r1 obtain de where de: "dpart = Inr de" and r2: "r = final ce de"
    by (cases dpart) auto
  from r2 have "valid r \<longrightarrow> ce = [] \<and> de = []"
    by (simp add: final_def Let_def)
  with ok have empty: "ce = []" "de = []" by auto
  have comps: "\<exists>cs. own_prop config ''components'' = JArr cs
            \<and> (\<forall>i < length cs. validateComponentConfig (cs ! i)
                   (''components['' @ string_of_nat i @ '']'') = Inr [])"
  proof (cases "own_prop config ''components''")
    case (JArr cs)
    from ce empty JArr obtain ys where
      ys: "mapE (\<lambda>(index, comp). validateComponentConfig comp
                   (''components['' @ string_of_nat index @ '']'')) (enumerate 0 cs) = Inr ys"
      and "concat ys = []"
      unfolding cpart_def by (auto simp: bindE_Inr_iff)
    then show ?thesis using JArr by (simp add: mapE_enumerate_Inr)
  qed (use ce empty in \<open>simp_all add: cpart_def\<close>)
  have dss: "own_prop config ''dataSource'' = JUndefined
         \<or> (\<exists>dss. own_prop config ''dataSource'' = JArr dss
               \<and> (\<forall>i < length dss. validateDataSourceConfig (dss ! i)
                      (''dataSource['' @ string_of_nat i @ '']'') = Inr []))"
  proof (cases "own_prop config ''dataSource''")
    case (JArr dss)
    from de empty JArr obtain ys where
      ys: "mapE (\<lambda>(index, ds). validateDataSourceConfig ds
                   (''dataSource['' @ string_of_nat index @ '']'')) (enumerate 0 dss) = Inr ys"
      and "concat ys = []"
      unfolding dpart_def by (auto simp: bindE_Inr_iff)
    then show ?thesis using JArr by (simp add: mapE_enumerate_Inr)
  qed (use de empty in \<open>simp_all add: dpart_def\<close>)
  from obj comps dss show ?thesis by blast
qed

lemma object_cases:
  "truthy v \<Longrightarrow> typeof v = TObject \<Longrightarrow> (\<exists>xs. v = JArr xs) \<or> (\<exists>fs. v = JObj fs)"
  by (cases v) auto

lemma valid_dataSource:
  assumes res: "validateDataSourceConfig ds pth = Inr []"
  shows "truthy ds \<and> typeof ds = TObject
     \<and> (\<exists>s. own_prop ds ''id'' = JStr s \<and> s \<noteq> [])
     \<and> own_prop ds ''type'' \<in> {JStr ''api'', JStr ''static'', JStr ''computed''}
     \<and> truthy (own_prop ds ''config'') \<and> typeof (own_prop ds ''config'') = TObject"
proof -
  have obj: "truthy ds" "typeof ds = TObject"
    using res by (auto simp: validateDataSourceConfig.simps [of ds pth] split: if_splits)
  note gp = get_prop_object [OF obj]
  from res obj have
    a: "truthy (own_prop ds ''id'')" "typeof (own_prop ds ''id'') = TString"
    and b: "own_prop ds ''type'' \<in> {JStr ''api'', JStr ''static'', JStr ''computed''}"
    and c: "truthy (own_prop ds ''config'')" "typeof (own_prop ds ''config'') = TObject"
    by (auto simp: validateDataSourceConfig.simps [of ds pth] gp split: if_splits)
  from a have "\<exists>s. own_prop ds ''id'' = JStr s \<and> s \<noteq> []"
    by (cases "own_prop ds ''id''") auto
  with obj b c show ?thesis by blast
qed

lemma initDataSource_valid:
  assumes "validateDataSourceConfig ds pth = Inr []"
  shows "initDataSource m ds =
     Inr (js_map_set m (own_prop ds ''id'')
            (if own_prop ds ''type'' = JStr ''static''
                \<and> js_in ''data'' (own_prop ds ''config'') = Inr True
             then own_prop (own_prop ds ''config'') ''data'' else JNull))"
proof -
  from valid_dataSource [OF assms] have obj: "truthy ds" "typeof ds = TObject"
    and c: "truthy (own_prop ds ''config'')" "typeof (own_prop ds ''config'') = TObject"
    by auto
  note gp = get_prop_object [OF obj]
  note gpc = get_prop_object [OF c]
  from object_cases [OF c] obtain b where b: "js_in ''data'' (own_prop ds ''config'') = Inr b"
    by auto
  show ?thesis
    by (cases b) (simp_all add: initDataSource_def gp gpc b)
qed

lemma foldE_fold:
  "(\<And>x s. x \<in> set xs \<Longrightarrow> f s x = Inr (g x s)) \<Longrightarrow> foldE f xs s = Inr (fold g xs s)"
  by (induction xs arbitrary: s) auto

lemma valid_page_parses:
  assumes res: "validatePageConfig config = Inr r" and ok: "valid r"
  shows "\<exists>cs pcs.
     own_prop config ''components'' = JArr cs
     \<and> mapE (\<lambda>comp. parseComponent comp (set userPermissions)) cs = Inr pcs
     \<and> parsePageConfig config userPermissions =
         Inr \<lparr>pp_pageCode = own_prop config ''pageCode'', pp_title = own_prop config ''title'',
              pp_components = pcs,
              pp_dataSources =
                (case own_prop config ''dataSource'' of
                   JArr dss \<Rightarrow> fold dataSource_entry dss []
                 | _ \<Rightarrow> [])\<rparr>"
proof -
  from valid_page [OF res ok] obtain cs where
    obj: "truthy config" "typeof config = TObject"
    and cs: "own_prop config ''components'' = JArr cs"
    and valid_cs: "\<forall>i < length cs. validateComponentConfig (cs ! i)
                   (''components['' @ string_of_nat i @ '']'') = Inr []"
    and dss: "own_prop config ''dataSource'' = JUndefined
         \<or> (\<exists>dss. own_prop config ''dataSource'' = JArr dss
               \<and> (\<forall>i < length dss. validateDataSourceConfig (dss ! i)
                      (''dataSource['' @ string_of_nat i @ '']'') = Inr []))"
    by blast
  note gp = get_prop_object [OF obj]
  have "\<exists>pcs. mapE (\<lambda>comp. parseComponent comp (set userPermissions)) cs = Inr pcs"
  proof (rule mapE_total)
    fix comp assume "comp \<in> set cs"
    then obtain i where "i < length cs" "comp = cs ! i" by (metis in_set_conv_nth)
    with valid_cs valid_component_parses
    show "\<exists>pc. parseComponent comp (set userPermissions) = Inr pc" by blast
  qed
  then obtain pcs where pcs: "mapE (\<lambda>comp. parseComponent comp (set userPermissions)) cs = Inr pcs" ..
  have ds_part: "(if truthy (own_prop config ''dataSource'') then
             bindE (array_of (own_prop config ''dataSource'')) (\<lambda>dss. foldE initDataSource dss [])
           else Inr []) =
        Inr (case own_prop config ''dataSource'' of
                   JArr dss \<Rightarrow> fold dataSource_entry dss []
                 | _ \<Rightarrow> [])"
    using dss
  proof
    assume "own_prop config ''dataSource'' = JUndefined"
    then show ?thesis by simp
  next
    assume "\<exists>dss. own_prop config ''dataSource'' = JArr dss
               \<and> (\<forall>i < length dss. validateDataSourceConfig (dss ! i)
                      (''dataSource['' @ string_of_nat i @ '']'') = Inr [])"
    then obtain dss where d: "own_prop config ''dataSource'' = JArr dss"
      and valid_dss: "\<forall>i < length dss. validateDataSourceConfig (dss ! i)
                      (''dataSource['' @ string_of_nat i @ '']'') = Inr []"
      by blast
    have "foldE initDataSource dss [] = Inr (fold dataSource_entry dss [])"
    proof (rule foldE_fold)
      fix ds m assume "ds \<in> set dss"
      then obtain i where "i < length dss" "ds = dss ! i" by (metis in_set_conv_nth)
      with valid_dss have "validateDataSourceConfig ds
                      (''dataSource['' @ string_of_nat i @ '']'') = Inr []" by simp
      from initDataSource_valid [OF this]
      show "initDataSource m ds = Inr (dataSource_entry ds m)"
        by (simp add: dataSource_entry_def)
    qed
    with d show ?thesis by simp
  qed
  have "parsePageConfig config userPermissions =
         Inr \<lparr>pp_pageCode = own_prop config ''pageCode'', pp_title = own_prop config ''title'',
              pp_components = pcs,
              pp_dataSources =
                (case own_prop config ''dataSource'' of
                   JArr dss \<Rightarrow> fold dataSource_entry dss []
                 | _ \<Rightarrow> [])\<rparr>"
    unfolding parsePageConfig_def
    by (simp add: res ok gp cs pcs ds_part)
  with cs pcs show ?thesis by blast
qed

section \<open>Runs under engine limits\<close>

lemma enter_Inr_iff: "enter eng d b = Inr x \<longleftrightarrow> d \<le> max_depth eng \<and> b = Inr x"
  by (auto simp: enter_def)

lemma call_builtin_Inr_iff: "call_builtin eng d v = Inr x \<longleftrightarrow> d \<le> max_depth eng \<and> x = v"
  by (auto simp: call_builtin_def enter_def)

lemma call_builtin_ok: "d \<le> max_depth eng \<Longrightarrow> call_builtin eng d v = Inr v"
  by (simp add: call_builtin_def enter_def)

lemma push_spread_Inr_iff:
  "push_spread eng d xs = Inr ys \<longleftrightarrow>
     length xs \<le> max_args eng \<and> d \<le> max_depth eng \<and> ys = xs"
  by (auto simp: push_spread_def call_builtin_def enter_def)

lemma cut_refl: "cut_short b b"
  by (simp add: cut_short_def)

lemma cut_enter: "cut_short b b' \<Longrightarrow> cut_short (enter eng d b) b'"
  by (auto simp: cut_short_def enter_def)

lemma cut_call_builtin: "cut_short (call_builtin eng d v) (Inr v)"
  by (auto simp: cut_short_def call_builtin_def enter_def)

lemma cut_bindE:
  "cut_short m m' \<Longrightarrow> (\<And>x. m' = Inr x \<Longrightarrow> cut_short (f x) (f' x)) \<Longrightarrow> cut_short (bindE m f) (bindE m' f')"
  by (cases m') (auto simp: cut_short_def)

lemma cut_bind_pure: "cut_short a (Inr x) \<Longrightarrow> cut_short (f x) r \<Longrightarrow> cut_short (bindE a f) r"
  by (auto simp: cut_short_def)

lemma cut_push_spread: "cut_short (push_spread eng d xs) (Inr xs)"
  by (simp add: cut_short_def push_spread_def call_builtin_def enter_def)

lemma cut_bind_push: "cut_short b b' \<Longrightarrow> cut_short (bindE b (push_spread eng d)) b'"
proof (cases b')
  case (Inl e)
  assume "cut_short b b'"
  with Inl show ?thesis by (auto simp: cut_short_def)
next
  case (Inr xs)
  assume "cut_short b b'"
  with Inr cut_push_spread [of eng d xs] show ?thesis by (auto simp: cut_short_def)
qed

lemma cut_mapE:
  "(\<And>x. x \<in> set xs \<Longrightarrow> cut_short (f x) (g x)) \<Longrightarrow> cut_short (mapE f xs) (mapE g xs)"
proof (induction xs)
  case Nil
  show ?case by (simp add: cut_refl)
next
  case (Cons x xs)
  have head: "cut_short (f x) (g x)" by (rule Cons.prems) simp
  have tail: "cut_short (mapE f xs) (mapE g xs)" by (rule Cons.IH) (simp add: Cons.prems)
  show ?case
    unfolding mapE.simps
    by (rule cut_bindE [OF head]) (rule cut_bindE [OF tail], rule cut_refl)
qed

lemma cut_foldE:
  "(\<And>s x. x \<in> set xs \<Longrightarrow> cut_short (f s x) (g s x)) \<Longrightarrow> cut_short (foldE f xs s) (foldE g xs s)"
proof (induction xs arbitrary: s)
  case Nil
  show ?case by (simp add: cut_refl)
next
  case (Cons x xs)
  have head: "cut_short (f s x) (g s x)" by (rule Cons.prems) simp
  have tail: "cut_short (foldE f xs s') (foldE g xs s')" for s'
    by (rule Cons.IH) (simp add: Cons.prems)
  show ?case
    unfolding foldE.simps by (rule cut_bindE [OF head]) (rule tail)
qed

lemma cut_Inr: "cut_short b b' \<Longrightarrow> b = Inr x \<Longrightarrow> b' = Inr x"
  by (auto simp: cut_short_def)

lemma validateComponentConfig_on_non_object:
  "\<not> truthy config \<or> typeof config \<noteq> TObject \<Longrightarrow>
   validateComponentConfig_on eng d config pth =
     enter eng d
       (call_builtin eng (Suc d)
          [\<lparr>path = pth, message = MsgComponentMustBeObject, code = ''INVALID_CONFIG''\<rparr>])"
  by (simp add: validateComponentConfig_on.simps [of eng d config pth])

lemma validateComponentConfig_on_object:
  assumes obj: "truthy config" "typeof config = TObject"
  shows "validateComponentConfig_on eng d config pth =
     enter eng d
       (bindE (field_errors_on eng d config pth) (\<lambda>field_errors.
        bindE (children_errors_on eng d pth (own_prop config ''children'')) (\<lambda>children_errors.
        Inr (field_errors @ children_errors))))"
proof -
  note gp = get_prop_object [OF obj]
  have assoc: "bindE (bindE a f) g = bindE a (\<lambda>x. bindE (f x) g)" for a :: "'x result"
    and f :: "'x \<Rightarrow> 'y result" and g :: "'y \<Rightarrow> 'z result"
    by (cases a) auto
  show ?thesis
    using obj
    by (simp add: validateComponentConfig_on.simps [of eng d config pth] gp
          field_errors_on_def children_errors_on_def assoc)
qed

lemma field_errors_on_cut:
  "cut_short (field_errors_on eng d config pth) (Inr (component_field_errors config pth))"
  unfolding field_errors_on_def component_field_errors_def
  by (auto simp: cut_short_def call_builtin_def enter_def)


lemma validateComponentConfig_on_cut:
  "cut_short (validateComponentConfig_on eng d config pth) (validateComponentConfig config pth)"
proof (induction eng d config pth rule: validateComponentConfig_on.induct)
  case (1 eng d config pth)
  show ?case
  proof (cases "\<not> truthy config \<or> typeof config \<noteq> TObject")
    case True
    show ?thesis
      unfolding validateComponentConfig_on_non_object [OF True]
        validateComponentConfig_non_object [OF True]
      by (intro cut_enter cut_call_builtin)
  next
    case False
    then have obj: "truthy config" "typeof config = TObject" by auto
    note gp = get_prop_object [OF obj]
    have children: "cut_short (children_errors_on eng d pth (own_prop config ''children''))
       (if own_prop config ''children'' \<noteq> JUndefined then
          (if \<not> isArray (own_prop config ''children'') then
             Inr [\<lparr>path = pth @ ''.children'', message = MsgChildrenMustBeArray,
                   code = ''INVALID_TYPE''\<rparr>]
           else
             bindE (array_of (own_prop config ''children'')) (\<lambda>cs.
             bindE (mapE (\<lambda>(index, child).
                      validateComponentConfig child
                        (pth @ ''.children['' @ string_of_nat index @ '']''))
                    (enumerate 0 cs)) (\<lambda>childErrors.
             Inr (concat childErrors))))
        else Inr [])"
    proof (cases "Suc d \<le> max_depth eng \<and> (\<exists>cs. own_prop config ''children'' = JArr cs)")
      case True
      then obtain cs where ok: "Suc d \<le> max_depth eng"
        and JArr: "own_prop config ''children'' = JArr cs" by auto
      have "\<exists>ie.
        (if \<not> truthy (own_prop config ''id'') \<or> typeof (own_prop config ''id'') \<noteq> TString then
            call_builtin eng (Suc d)
              [\<lparr>path = pth @ ''.id'', message = MsgComponentIdRequired,
                code = ''REQUIRED_FIELD''\<rparr>]
          else Inr []) = Inr ie" (is "\<exists>x. ?P x")
        by (simp add: call_builtin_ok [OF ok])
      then obtain ie where idp: "?P ie" ..
      have "\<exists>te.
        (if \<not> truthy (own_prop config ''type'') \<or> typeof (own_prop config ''type'') \<noteq> TString then
            call_builtin eng (Suc d)
              [\<lparr>path = pth @ ''.type'', message = MsgComponentTypeRequired,
                code = ''REQUIRED_FIELD''\<rparr>]
          else
            bindE (call_builtin eng (Suc d) (componentTypeSet_has (own_prop config ''type'')))
              (\<lambda>supported.
            if \<not> supported then
              call_builtin eng (Suc d)
                [\<lparr>path = pth @ ''.type'',
                  message = MsgUnsupportedComponentType (own_prop config ''type''),
                  code = ''UNSUPPORTED_TYPE''\<rparr>]
            else Inr [])) = Inr te" (is "\<exists>x. ?P x")
        by (simp add: call_builtin_ok [OF ok])
      then obtain te where typp: "?P te" ..
      have "\<exists>pe.
        (if own_prop config ''props'' \<noteq> JUndefined \<and> typeof (own_prop config ''props'') \<noteq> TObject
          then
            call_builtin eng (Suc d)
              [\<lparr>path = pth @ ''.props'', message = MsgPropsMustBeObject, code = ''INVALID_TYPE''\<rparr>]
          else Inr []) = Inr pe" (is "\<exists>x. ?P x")
        by (simp add: call_builtin_ok [OF ok])
      then obtain pe where prp: "?P pe" ..
      have nz: "own_prop config ''children'' \<noteq> JUndefined" using JArr by simp
      have isarr: "call_builtin eng (Suc d) (isArray (own_prop config ''children'')) = Inr True"
        using JArr by (simp add: call_builtin_ok [OF ok])
      have nn: "\<not> \<not> True" by simp
      have arr: "array_of (own_prop config ''children'') = Inr cs" using JArr by simp
      have each: "cut_short (case x of (index, child) \<Rightarrow>
                      enter eng (d + 2)
                        (bindE (validateComponentConfig_on eng (d + 3) child
                                  (pth @ ''.children['' @ string_of_nat index @ '']''))
                           (\<lambda>childErrors. push_spread eng (d + 3) childErrors)))
                 (case x of (index, child) \<Rightarrow>
                      validateComponentConfig child
                        (pth @ ''.children['' @ string_of_nat index @ '']''))"
        if x: "x \<in> set (enumerate 0 cs)" for x
      proof -
        obtain index child where xe: "x = (index, child)" by (cases x)
        have "cut_short (validateComponentConfig_on eng (d + 3) child
                     (pth @ ''.children['' @ string_of_nat index @ '']''))
                  (validateComponentConfig child
                     (pth @ ''.children['' @ string_of_nat index @ '']''))"
          by (rule "1.IH" [OF False gp idp gp typp gp prp gp nz isarr nn arr x xe [symmetric]])
        then show ?thesis
          unfolding xe by (simp add: cut_enter cut_bind_push)
      qed
      have lhs: "children_errors_on eng d pth (own_prop config ''children'') =
          enter eng (Suc d)
            (bindE (mapE (\<lambda>x. case x of (index, child) \<Rightarrow>
                      enter eng (d + 2)
                        (bindE (validateComponentConfig_on eng (d + 3) child
                                  (pth @ ''.children['' @ string_of_nat index @ '']''))
                           (\<lambda>childErrors. push_spread eng (d + 3) childErrors)))
                    (enumerate 0 cs)) (\<lambda>pushed.
             Inr (concat pushed)))"
        unfolding children_errors_on_def JArr by (simp add: call_builtin_ok [OF ok])
      have "cut_short (children_errors_on eng d pth (own_prop config ''children''))
          (bindE (mapE (\<lambda>x. case x of (index, child) \<Rightarrow>
                      validateComponentConfig child
                        (pth @ ''.children['' @ string_of_nat index @ '']''))
                    (enumerate 0 cs)) (\<lambda>childErrors.
             Inr (concat childErrors)))"
        unfolding lhs
        by (rule cut_enter, rule cut_bindE [OF cut_mapE], rule each, assumption, rule cut_refl)
      then show ?thesis
        unfolding JArr by simp
    next
      case False
      then show ?thesis
        by (cases "own_prop config ''children''")
           (auto simp: children_errors_on_def cut_short_def call_builtin_def enter_def)
    qed
    have "cut_short (bindE (field_errors_on eng d config pth) (\<lambda>field_errors.
        bindE (children_errors_on eng d pth (own_prop config ''children'')) (\<lambda>children_errors.
        Inr (field_errors @ children_errors))))
      (validateComponentConfig config pth)"
      unfolding validateComponentConfig_object [OF obj]
      by (rule cut_bind_pure [OF field_errors_on_cut])
         (rule cut_bindE [OF children], rule cut_refl)
    then show ?thesis
      unfolding validateComponentConfig_on_object [OF obj] by (rule cut_enter)
  qed
qed

section \<open>The validators under engine limits\<close>

text \<open>
  The loop \<^verbatim>\<open>xs.forEach((x, index) => { const es = validate(x, ...); errors.push(...es) })\<close>
  of the three validators: it completes when every element's list is returned and fits in
  one call.
\<close>

lemma forEach_push_Inr:
  "enter eng (Suc d)
     (bindE (mapE (\<lambda>(index, x).
               enter eng (d + 2) (bindE (V index x) (push_spread eng (d + 3))))
             (enumerate 0 xs)) (\<lambda>pushed.
      Inr (concat pushed))) = Inr es \<longleftrightarrow>
   Suc d \<le> max_depth eng
   \<and> (\<exists>ys. length ys = length xs \<and> es = concat ys
        \<and> (\<forall>i < length xs. V i (xs ! i) = Inr (ys ! i)
              \<and> length (ys ! i) \<le> max_args eng \<and> d + 3 \<le> max_depth eng))"
  (is "?lhs \<longleftrightarrow> ?rhs")
proof
  assume ?lhs
  then obtain pushed where d1: "Suc d \<le> max_depth eng"
    and m: "mapE (\<lambda>(index, x).
               enter eng (d + 2) (bindE (V index x) (push_spread eng (d + 3))))
             (enumerate 0 xs) = Inr pushed"
    and es: "es = concat pushed"
    by (auto simp: enter_Inr_iff bindE_Inr_iff)
  from m have len: "length pushed = length xs"
    and each: "\<forall>i < length xs.
        enter eng (d + 2) (bindE (V i (xs ! i)) (push_spread eng (d + 3))) = Inr (pushed ! i)"
    by (simp_all add: mapE_enumerate_Inr)
  have "V i (xs ! i) = Inr (pushed ! i)
      \<and> length (pushed ! i) \<le> max_args eng \<and> d + 3 \<le> max_depth eng" if "i < length xs" for i
    using each that by (auto simp: enter_Inr_iff bindE_Inr_iff push_spread_Inr_iff)
  with d1 len es show ?rhs by blast
next
  assume ?rhs
  then obtain ys where d1: "Suc d \<le> max_depth eng"
    and len: "length ys = length xs" and es: "es = concat ys"
    and each: "\<forall>i < length xs. V i (xs ! i) = Inr (ys ! i)
              \<and> length (ys ! i) \<le> max_args eng \<and> d + 3 \<le> max_depth eng"
    by blast
  have "mapE (\<lambda>(index, x).
               enter eng (d + 2) (bindE (V index x) (push_spread eng (d + 3))))
             (enumerate 0 xs) = Inr ys"
    using len each by (fastforce simp: mapE_enumerate_Inr enter_Inr_iff push_spread_Inr_iff)
  with d1 es show ?lhs by (simp add: enter_Inr_iff)
qed

lemma forEach_push_cut:
  assumes "\<And>i x. (i, x) \<in> set (enumerate 0 xs) \<Longrightarrow> cut_short (V i x) (W i x)"
  shows "cut_short
    (enter eng (Suc d)
       (bindE (mapE (\<lambda>(index, x).
                 enter eng (d + 2) (bindE (V index x) (push_spread eng (d + 3))))
               (enumerate 0 xs)) (\<lambda>pushed.
        Inr (concat pushed))))
    (bindE (mapE (\<lambda>(index, x). W index x) (enumerate 0 xs)) (\<lambda>ys. Inr (concat ys)))"
proof -
  have each: "cut_short (case p of (index, x) \<Rightarrow>
               enter eng (d + 2) (bindE (V index x) (push_spread eng (d + 3))))
             (case p of (index, x) \<Rightarrow> W index x)"
    if "p \<in> set (enumerate 0 xs)" for p
  proof -
    obtain i x where p: "p = (i, x)" by (cases p)
    with that have "cut_short (V i x) (W i x)" by (simp add: assms)
    then show ?thesis unfolding p prod.case by (intro cut_enter cut_bind_push)
  qed
  show ?thesis
    by (rule cut_enter, rule cut_bindE [OF cut_mapE], rule each, assumption, rule cut_refl)
qed

subsection \<open>Data sources\<close>

lemma validateDataSourceConfig_on_depth:
  "validateDataSourceConfig_on eng d config pth = Inr es \<Longrightarrow> Suc d \<le> max_depth eng"
proof (rule ccontr)
  assume res: "validateDataSourceConfig_on eng d config pth = Inr es"
  assume "\<not> Suc d \<le> max_depth eng"
  then have fail: "call_builtin eng (Suc d) v = Inl RangeError" for v :: 'v
    by (simp add: call_builtin_def enter_def)
  show False
  proof (cases "\<not> truthy config \<or> typeof config \<noteq> TObject")
    case True
    with res show False
      by (simp add: validateDataSourceConfig_on_def enter_def fail split: if_splits)
  next
    case False
    then have obj: "truthy config" "typeof config = TObject" by auto
    note gp = get_prop_object [OF obj]
    from res obj show False
      by (cases "truthy (own_prop config ''type'')")
         (simp_all add: validateDataSourceConfig_on_def enter_def fail gp split: if_splits)
  qed
qed

lemma validateDataSourceConfig_on_ok:
  "Suc d \<le> max_depth eng \<Longrightarrow>
   validateDataSourceConfig_on eng d config pth = validateDataSourceConfig config pth"
proof (cases "\<not> truthy config \<or> typeof config \<noteq> TObject")
  case True
  assume "Suc d \<le> max_depth eng"
  with True show ?thesis
    by (simp add: validateDataSourceConfig_on_def validateDataSourceConfig.simps
          enter_def call_builtin_ok)
next
  case False
  assume ok: "Suc d \<le> max_depth eng"
  from False have obj: "truthy config" "typeof config = TObject" by auto
  note gp = get_prop_object [OF obj]
  from obj ok show ?thesis
    by (simp add: validateDataSourceConfig_on_def validateDataSourceConfig.simps [of config pth]
          enter_def call_builtin_ok gp)
qed

lemma validateDataSourceConfig_on_Inr:
  "validateDataSourceConfig_on eng d config pth = Inr es \<longleftrightarrow>
     Suc d \<le> max_depth eng \<and> validateDataSourceConfig config pth = Inr es"
  using validateDataSourceConfig_on_depth [of eng d config pth es]
    validateDataSourceConfig_on_ok [of d eng config pth] by auto

lemma validateDataSourceConfig_on_cut:
  "cut_short (validateDataSourceConfig_on eng d config pth) (validateDataSourceConfig config pth)"
proof (cases "validateDataSourceConfig_on eng d config pth")
  case (Inr es)
  then show ?thesis by (simp add: validateDataSourceConfig_on_Inr cut_short_def)
next
  case (Inl e)
  have "\<not> Suc d \<le> max_depth eng"
    using Inl validateDataSourceConfig_on_ok [of d eng config pth]
      validateDataSourceConfig_total [of config pth] by auto
  then have fail: "call_builtin eng (Suc d) v = Inl RangeError" for v :: 'v
    by (simp add: call_builtin_def enter_def)
  have "e = RangeError"
  proof (cases "\<not> truthy config \<or> typeof config \<noteq> TObject")
    case True
    with Inl show ?thesis
      by (simp add: validateDataSourceConfig_on_def enter_def fail split: if_splits)
  next
    case False
    then have obj: "truthy config" "typeof config = TObject" by auto
    note gp = get_prop_object [OF obj]
    from Inl obj show ?thesis
      by (cases "truthy (own_prop config ''type'')")
         (simp_all add: validateDataSourceConfig_on_def enter_def fail gp split: if_splits)
  qed
  with Inl show ?thesis by (simp add: cut_short_def)
qed

subsection \<open>Components\<close>

lemma field_errors_on_depth:
  assumes res: "field_errors_on eng d config pth = Inr es"
  shows "Suc d \<le> max_depth eng"
proof (rule ccontr)
  assume "\<not> Suc d \<le> max_depth eng"
  then have fail: "call_builtin eng (Suc d) v = Inl RangeError" for v :: 'v
    by (simp add: call_builtin_def enter_def)
  from res show False
    by (simp add: field_errors_on_def fail split: if_splits)
qed

lemma field_errors_on_ok:
  "Suc d \<le> max_depth eng \<Longrightarrow>
   field_errors_on eng d config pth = Inr (component_field_errors config pth)"
  by (simp add: field_errors_on_def component_field_errors_def call_builtin_ok)

lemma children_errors_on_Inr:
  "children_errors_on eng d pth (JArr cs) = Inr es \<longleftrightarrow>
   Suc d \<le> max_depth eng
   \<and> (\<exists>ys. length ys = length cs \<and> es = concat ys
        \<and> (\<forall>i < length cs.
              validateComponentConfig_on eng (d + 3) (cs ! i)
                (pth @ ''.children['' @ string_of_nat i @ '']'') = Inr (ys ! i)
              \<and> length (ys ! i) \<le> max_args eng \<and> d + 3 \<le> max_depth eng))"
proof -
  have eq: "children_errors_on eng d pth (JArr cs) =
      (if Suc d \<le> max_depth eng then
      enter eng (Suc d)
        (bindE (mapE (\<lambda>(index, child).
                  enter eng (d + 2)
                    (bindE (validateComponentConfig_on eng (d + 3) child
                              (pth @ ''.children['' @ string_of_nat index @ '']''))
                       (push_spread eng (d + 3))))
                (enumerate 0 cs)) (\<lambda>pushed.
         Inr (concat pushed)))
       else Inl RangeError)"
    by (simp add: children_errors_on_def call_builtin_def enter_def)
  show ?thesis
  proof (cases "Suc d \<le> max_depth eng")
    case True
    show ?thesis
      unfolding eq if_P [OF True] forEach_push_Inr by (rule refl)
  next
    case False
    then show ?thesis unfolding eq by simp
  qed
qed

lemma validateComponentConfig_on_depth:
  assumes res: "validateComponentConfig_on eng d config pth = Inr es"
  shows "Suc d \<le> max_depth eng"
proof (cases "\<not> truthy config \<or> typeof config \<noteq> TObject")
  case True
  from res show ?thesis
    unfolding validateComponentConfig_on_non_object [OF True]
    by (simp add: enter_Inr_iff call_builtin_Inr_iff)
next
  case False
  then have obj: "truthy config" "typeof config = TObject" by auto
  from res obtain fe where "field_errors_on eng d config pth = Inr fe"
    unfolding validateComponentConfig_on_object [OF obj]
    by (auto simp: enter_Inr_iff bindE_Inr_iff)
  then show ?thesis by (rule field_errors_on_depth)
qed

lemma valid_component_children_on:
  assumes res: "validateComponentConfig_on eng d config pth = Inr []"
  shows "truthy config \<and> typeof config = TObject \<and> Suc d \<le> max_depth eng
     \<and> (own_prop config ''children'' = JUndefined
         \<or> (\<exists>cs. own_prop config ''children'' = JArr cs
               \<and> (\<forall>i < length cs. validateComponentConfig_on eng (d + 3) (cs ! i)
                      (pth @ ''.children['' @ string_of_nat i @ '']'') = Inr [])))"
proof -
  have "truthy config \<and> typeof config = TObject"
  proof (rule ccontr)
    assume "\<not> (truthy config \<and> typeof config = TObject)"
    then have non: "\<not> truthy config \<or> typeof config \<noteq> TObject" by simp
    from res show False
      unfolding validateComponentConfig_on_non_object [OF non]
      by (simp add: enter_Inr_iff call_builtin_Inr_iff)
  qed
  then have obj: "truthy config" "typeof config = TObject" by simp_all
  from res obtain fe ce where "field_errors_on eng d config pth = Inr fe"
    and ce: "children_errors_on eng d pth (own_prop config ''children'') = Inr ce"
    and "fe @ ce = []"
    unfolding validateComponentConfig_on_object [OF obj]
    by (auto simp: enter_Inr_iff bindE_Inr_iff)
  then have empty: "ce = []" by simp
  note depth = validateComponentConfig_on_depth [OF res]
  have "own_prop config ''children'' = JUndefined
         \<or> (\<exists>cs. own_prop config ''children'' = JArr cs
               \<and> (\<forall>i < length cs. validateComponentConfig_on eng (d + 3) (cs ! i)
                      (pth @ ''.children['' @ string_of_nat i @ '']'') = Inr []))"
  proof (cases "own_prop config ''children''")
    case (JArr cs)
    from ce [unfolded JArr empty children_errors_on_Inr] obtain ys where
      len: "length ys = length cs" and cat: "[] = concat ys"
      and each: "\<forall>i < length cs. validateComponentConfig_on eng (d + 3) (cs ! i)
                (pth @ ''.children['' @ string_of_nat i @ '']'') = Inr (ys ! i)"
      by blast
    from cat len have "\<forall>i < length cs. ys ! i = []" by simp
    with each JArr show ?thesis by simp
  qed (use ce empty in \<open>auto simp: children_errors_on_def bindE_Inr_iff call_builtin_Inr_iff\<close>)
  with obj depth show ?thesis by blast
qed

subsection \<open>Pages\<close>

lemma validatePageConfig_on_non_object:
  "\<not> truthy config \<or> typeof config \<noteq> TObject \<Longrightarrow>
   validatePageConfig_on eng d config =
     enter eng d
       (bindE (call_builtin eng (Suc d)
                 [\<lparr>path = [], message = MsgConfigMustBeObject, code = ''INVALID_CONFIG''\<rparr>])
          (\<lambda>errs. Inr \<lparr>valid = False, errors = errs\<rparr>))"
  by (simp add: validatePageConfig_on_def)

lemma validatePageConfig_on_object:
  assumes obj: "truthy config" "typeof config = TObject"
  shows "validatePageConfig_on eng d config =
     enter eng d
       (bindE (page_field_errors_on eng d config) (\<lambda>field_errors.
        bindE (components_errors_on eng d (own_prop config ''components'')) (\<lambda>components_errors.
        bindE (dataSource_errors_on eng d (own_prop config ''dataSource'')) (\<lambda>dataSource_errors.
        Inr \<lparr>valid = (field_errors @ components_errors @ dataSource_errors = []),
             errors = field_errors @ components_errors @ dataSource_errors\<rparr>))))"
proof -
  note gp = get_prop_object [OF obj]
  have assoc: "bindE (bindE a f) g = bindE a (\<lambda>x. bindE (f x) g)" for a :: "'x result"
    and f :: "'x \<Rightarrow> 'y result" and g :: "'y \<Rightarrow> 'z result"
    by (cases a) auto
  show ?thesis
    using obj
    by (simp add: validatePageConfig_on_def gp page_field_errors_on_def
          components_errors_on_def dataSource_errors_on_def assoc Let_def)
qed

lemma validatePageConfig_object:
  assumes obj: "truthy config" "typeof config = TObject"
  shows "validatePageConfig config =
     bindE
       (if \<not> isArray (own_prop config ''components'') then
          Inr [\<lparr>path = ''components'', message = MsgComponentsMustBeArray,
                code = ''INVALID_TYPE''\<rparr>]
        else
          bindE (array_of (own_prop config ''components'')) (\<lambda>cs.
          bindE (mapE (\<lambda>(index, comp).
                   validateComponentConfig comp
                     (''components['' @ string_of_nat index @ '']''))
                 (enumerate 0 cs)) (\<lambda>compErrors.
          Inr (concat compErrors)))) (\<lambda>components_errors.
     bindE
       (if own_prop config ''dataSource'' \<noteq> JUndefined then
          (if \<not> isArray (own_prop config ''dataSource'') then
             Inr [\<lparr>path = ''dataSource'', message = MsgDataSourceMustBeArray,
                   code = ''INVALID_TYPE''\<rparr>]
           else
             bindE (array_of (own_prop config ''dataSource'')) (\<lambda>dss.
             bindE (mapE (\<lambda>(index, ds).
                      validateDataSourceConfig ds
                        (''dataSource['' @ string_of_nat index @ '']''))
                    (enumerate 0 dss)) (\<lambda>dsErrors.
             Inr (concat dsErrors))))
        else Inr []) (\<lambda>dataSource_errors.
     Inr \<lparr>valid =
            (((if \<not> truthy (own_prop config ''pageCode'')
                  \<or> typeof (own_prop config ''pageCode'') \<noteq> TString then
                 [\<lparr>path = ''pageCode'', message = MsgPageCodeRequired,
                   code = ''REQUIRED_FIELD''\<rparr>]
               else [])
              @ (if \<not> truthy (own_prop config ''title'')
                    \<or> typeof (own_prop config ''title'') \<noteq> TString then
                   [\<lparr>path = ''title'', message = MsgTitleRequired, code = ''REQUIRED_FIELD''\<rparr>]
                 else []))
             @ components_errors @ dataSource_errors = []),
          errors =
            ((if \<not> truthy (own_prop config ''pageCode'')
                  \<or> typeof (own_prop config ''pageCode'') \<noteq> TString then
                 [\<lparr>path = ''pageCode'', message = MsgPageCodeRequired,
                   code = ''REQUIRED_FIELD''\<rparr>]
               else [])
              @ (if \<not> truthy (own_prop config ''title'')
                    \<or> typeof (own_prop config ''title'') \<noteq> TString then
                   [\<lparr>path = ''title'', message = MsgTitleRequired, code = ''REQUIRED_FIELD''\<rparr>]
                 else []))
             @ components_errors @ dataSource_errors\<rparr>))"
  using obj by (simp add: validatePageConfig_def get_prop_object [OF obj] Let_def)

lemma page_field_errors_on_cut:
  "cut_short (page_field_errors_on eng d config)
     (Inr ((if \<not> truthy (own_prop config ''pageCode'')
               \<or> typeof (own_prop config ''pageCode'') \<noteq> TString then
              [\<lparr>path = ''pageCode'', message = MsgPageCodeRequired, code = ''REQUIRED_FIELD''\<rparr>]
            else [])
           @ (if \<not> truthy (own_prop config ''title'')
                 \<or> typeof (own_prop config ''title'') \<noteq> TString then
                [\<lparr>path = ''title'', message = MsgTitleRequired, code = ''REQUIRED_FIELD''\<rparr>]
              else [])))"
  unfolding page_field_errors_on_def
  by (auto simp: cut_short_def call_builtin_def enter_def)

lemma components_errors_on_Inr:
  "components_errors_on eng d (JArr cs) = Inr es \<longleftrightarrow>
   Suc d \<le> max_depth eng
   \<and> (\<exists>ys. length ys = length cs \<and> es = concat ys
        \<and> (\<forall>i < length cs.
              validateComponentConfig_on eng (d + 3) (cs ! i)
                (''components['' @ string_of_nat i @ '']'') = Inr (ys ! i)
              \<and> length (ys ! i) \<le> max_args eng \<and> d + 3 \<le> max_depth eng))"
proof -
  have eq: "components_errors_on eng d (JArr cs) =
      (if Suc d \<le> max_depth eng then
      enter eng (Suc d)
        (bindE (mapE (\<lambda>(index, comp).
                  enter eng (d + 2)
                    (bindE (validateComponentConfig_on eng (d + 3) comp
                              (''components['' @ string_of_nat index @ '']''))
                       (push_spread eng (d + 3))))
                (enumerate 0 cs)) (\<lambda>pushed.
         Inr (concat pushed)))
       else Inl RangeError)"
    by (simp add: components_errors_on_def call_builtin_def enter_def)
  show ?thesis
  proof (cases "Suc d \<le> max_depth eng")
    case True
    show ?thesis
      unfolding eq if_P [OF True] forEach_push_Inr by (rule refl)
  next
    case False
    then show ?thesis unfolding eq by simp
  qed
qed

lemma dataSource_errors_on_Inr:
  "dataSource_errors_on eng d (JArr dss) = Inr es \<longleftrightarrow>
   Suc d \<le> max_depth eng
   \<and> (\<exists>ys. length ys = length dss \<and> es = concat ys
        \<and> (\<forall>i < length dss.
              validateDataSourceConfig_on eng (d + 3) (dss ! i)
                (''dataSource['' @ string_of_nat i @ '']'') = Inr (ys ! i)
              \<and> length (ys ! i) \<le> max_args eng \<and> d + 3 \<le> max_depth eng))"
proof -
  have eq: "dataSource_errors_on eng d (JArr dss) =
      (if Suc d \<le> max_depth eng then
      enter eng (Suc d)
        (bindE (mapE (\<lambda>(index, ds).
                  enter eng (d + 2)
                    (bindE (validateDataSourceConfig_on eng (d + 3) ds
                              (''dataSource['' @ string_of_nat index @ '']''))
                       (push_spread eng (d + 3))))
                (enumerate 0 dss)) (\<lambda>pushed.
         Inr (concat pushed)))
       else Inl RangeError)"
    by (simp add: dataSource_errors_on_def call_builtin_def enter_def)
  show ?thesis
  proof (cases "Suc d \<le> max_depth eng")
    case True
    show ?thesis
      unfolding eq if_P [OF True] forEach_push_Inr by (rule refl)
  next
    case False
    then show ?thesis unfolding eq by simp
  qed
qed

lemma components_errors_on_cut:
  "cut_short (components_errors_on eng d components)
     (if \<not> isArray components then
        Inr [\<lparr>path = ''components'', message = MsgComponentsMustBeArray,
              code = ''INVALID_TYPE''\<rparr>]
      else
        bindE (array_of components) (\<lambda>cs.
        bindE (mapE (\<lambda>(index, comp).
                 validateComponentConfig comp
                   (''components['' @ string_of_nat index @ '']''))
               (enumerate 0 cs)) (\<lambda>compErrors.
        Inr (concat compErrors))))"
proof (cases components)
  case (JArr cs)
  have eq: "components_errors_on eng d (JArr cs) =
      (if Suc d \<le> max_depth eng then
      enter eng (Suc d)
        (bindE (mapE (\<lambda>(index, comp).
                  enter eng (d + 2)
                    (bindE (validateComponentConfig_on eng (d + 3) comp
                              (''components['' @ string_of_nat index @ '']''))
                       (push_spread eng (d + 3))))
                (enumerate 0 cs)) (\<lambda>pushed.
         Inr (concat pushed)))
       else Inl RangeError)"
    by (simp add: components_errors_on_def call_builtin_def enter_def)
  have "cut_short (components_errors_on eng d (JArr cs))
     (bindE (mapE (\<lambda>(index, comp).
                 validateComponentConfig comp
                   (''components['' @ string_of_nat index @ '']''))
               (enumerate 0 cs)) (\<lambda>compErrors.
        Inr (concat compErrors)))"
  proof (cases "Suc d \<le> max_depth eng")
    case True
    show ?thesis
      unfolding eq if_P [OF True]
      by (rule forEach_push_cut, rule validateComponentConfig_on_cut)
  next
    case False
    then show ?thesis unfolding eq by (simp add: cut_short_def)
  qed
  then show ?thesis by (simp add: JArr)
qed (auto simp: components_errors_on_def cut_short_def call_builtin_def enter_def)

lemma dataSource_errors_on_cut:
  "cut_short (dataSource_errors_on eng d dataSource)
     (if dataSource \<noteq> JUndefined then
        (if \<not> isArray dataSource then
           Inr [\<lparr>path = ''dataSource'', message = MsgDataSourceMustBeArray,
                 code = ''INVALID_TYPE''\<rparr>]
         else
           bindE (array_of dataSource) (\<lambda>dss.
           bindE (mapE (\<lambda>(index, ds).
                    validateDataSourceConfig ds
                      (''dataSource['' @ string_of_nat index @ '']''))
                  (enumerate 0 dss)) (\<lambda>dsErrors.
           Inr (concat dsErrors))))
      else Inr [])"
proof (cases dataSource)
  case (JArr dss)
  have eq: "dataSource_errors_on eng d (JArr dss) =
      (if Suc d \<le> max_depth eng then
      enter eng (Suc d)
        (bindE (mapE (\<lambda>(index, ds).
                  enter eng (d + 2)
                    (bindE (validateDataSourceConfig_on eng (d + 3) ds
                              (''dataSource['' @ string_of_nat index @ '']''))
                       (push_spread eng (d + 3))))
                (enumerate 0 dss)) (\<lambda>pushed.
         Inr (concat pushed)))
       else Inl RangeError)"
    by (simp add: dataSource_errors_on_def call_builtin_def enter_def)
  have "cut_short (dataSource_errors_on eng d (JArr dss))
     (bindE (mapE (\<lambda>(index, ds).
                    validateDataSourceConfig ds
                      (''dataSource['' @ string_of_nat index @ '']''))
                  (enumerate 0 dss)) (\<lambda>dsErrors.
           Inr (concat dsErrors)))"
  proof (cases "Suc d \<le> max_depth eng")
    case True
    show ?thesis
      unfolding eq if_P [OF True]
      by (rule forEach_push_cut, rule validateDataSourceConfig_on_cut)
  next
    case False
    then show ?thesis unfolding eq by (simp add: cut_short_def)
  qed
  then show ?thesis by (simp add: JArr)
qed (auto simp: dataSource_errors_on_def cut_short_def call_builtin_def enter_def)

lemma validatePageConfig_on_cut:
  "cut_short (validatePageConfig_on eng d config) (validatePageConfig config)"
proof (cases "\<not> truthy config \<or> typeof config \<noteq> TObject")
  case True
  then show ?thesis
    by (auto simp: validatePageConfig_on_def validatePageConfig_def cut_short_def enter_def
          call_builtin_def)
next
  case False
  then have obj: "truthy config" "typeof config = TObject" by auto
  show ?thesis
    unfolding validatePageConfig_on_object [OF obj] validatePageConfig_object [OF obj]
    by (rule cut_enter, rule cut_bind_pure [OF page_field_errors_on_cut],
        rule cut_bindE [OF components_errors_on_cut],
        rule cut_bindE [OF dataSource_errors_on_cut], rule cut_refl)
qed

lemma validatePageConfig_on_Inl:
  "validatePageConfig_on eng d config = Inl e \<Longrightarrow> e = RangeError"
  using validatePageConfig_on_cut [of eng d config] validatePageConfig_report [of config]
  by (auto simp: cut_short_def)

lemma validatePageConfig_on_depth:
  assumes res: "validatePageConfig_on eng d config = Inr r"
  shows "Suc d \<le> max_depth eng"
proof (cases "\<not> truthy config \<or> typeof config \<noteq> TObject")
  case True
  from res show ?thesis
    unfolding validatePageConfig_on_non_object [OF True]
    by (simp add: enter_Inr_iff bindE_Inr_iff call_builtin_Inr_iff)
next
  case False
  then have obj: "truthy config" "typeof config = TObject" by auto
  from res obtain ce where
    "components_errors_on eng d (own_prop config ''components'') = Inr ce"
    unfolding validatePageConfig_on_object [OF obj]
    by (auto simp: enter_Inr_iff bindE_Inr_iff)
  then show ?thesis
    by (simp add: components_errors_on_def bindE_Inr_iff call_builtin_Inr_iff)
qed

lemma valid_page_on:
  assumes res: "validatePageConfig_on eng d config = Inr r" and ok: "valid r"
  shows "truthy config \<and> typeof config = TObject
     \<and> (\<exists>cs. own_prop config ''components'' = JArr cs
            \<and> (\<forall>i < length cs. validateComponentConfig_on eng (d + 3) (cs ! i)
                   (''components['' @ string_of_nat i @ '']'') = Inr []))
     \<and> (own_prop config ''dataSource'' = JUndefined
         \<or> (\<exists>dss. own_prop config ''dataSource'' = JArr dss
               \<and> (\<forall>i < length dss. validateDataSourceConfig_on eng (d + 3) (dss ! i)
                      (''dataSource['' @ string_of_nat i @ '']'') = Inr [])))"
proof -
  have "truthy config \<and> typeof config = TObject"
  proof (rule ccontr)
    assume "\<not> (truthy config \<and> typeof config = TObject)"
    then have non: "\<not> truthy config \<or> typeof config \<noteq> TObject" by simp
    from res ok show False
      unfolding validatePageConfig_on_non_object [OF non]
      by (auto simp: enter_Inr_iff bindE_Inr_iff)
  qed
  then have obj: "truthy config" "typeof config = TObject" by simp_all
  from res obtain fe ce de where
    ce: "components_errors_on eng d (own_prop config ''components'') = Inr ce"
    and de: "dataSource_errors_on eng d (own_prop config ''dataSource'') = Inr de"
    and r: "r = \<lparr>valid = (fe @ ce @ de = []), errors = fe @ ce @ de\<rparr>"
    unfolding validatePageConfig_on_object [OF obj]
    by (auto simp: enter_Inr_iff bindE_Inr_iff)
  from r ok have empty: "ce = []" "de = []" by simp_all
  have comps: "\<exists>cs. own_prop config ''components'' = JArr cs
            \<and> (\<forall>i < length cs. validateComponentConfig_on eng (d + 3) (cs ! i)
                   (''components['' @ string_of_nat i @ '']'') = Inr [])"
  proof (cases "own_prop config ''components''")
    case (JArr cs)
    from ce [unfolded JArr empty components_errors_on_Inr] obtain ys where
      len: "length ys = length cs" and cat: "[] = concat ys"
      and each: "\<forall>i < length cs. validateComponentConfig_on eng (d + 3) (cs ! i)
                (''components['' @ string_of_nat i @ '']'') = Inr (ys ! i)"
      by blast
    from cat len have "\<forall>i < length cs. ys ! i = []" by simp
    with each JArr show ?thesis by simp
  qed (use ce empty in \<open>auto simp: components_errors_on_def bindE_Inr_iff call_builtin_Inr_iff\<close>)
  have dss: "own_prop config ''dataSource'' = JUndefined
         \<or> (\<exists>dss. own_prop config ''dataSource'' = JArr dss
               \<and> (\<forall>i < length dss. validateDataSourceConfig_on eng (d + 3) (dss ! i)
                      (''dataSource['' @ string_of_nat i @ '']'') = Inr []))"
  proof (cases "own_prop config ''dataSource''")
    case (JArr dss)
    from de [unfolded JArr empty dataSource_errors_on_Inr] obtain ys where
      len: "length ys = length dss" and cat: "[] = concat ys"
      and each: "\<forall>i < length dss. validateDataSourceConfig_on eng (d + 3) (dss ! i)
                (''dataSource['' @ string_of_nat i @ '']'') = Inr (ys ! i)"
      by blast
    from cat len have "\<forall>i < length dss. ys ! i = []" by simp
    with each JArr show ?thesis by simp
  qed (use de empty in \<open>auto simp: dataSource_errors_on_def bindE_Inr_iff call_builtin_Inr_iff\<close>)
  from obj comps dss show ?thesis by blast
qed

section \<open>The parser under engine limits\<close>

lemma enter_ok: "d \<le> max_depth eng \<Longrightarrow> enter eng d b = b"
  by (simp add: enter_def)

lemma parseComponent_on_defined:
  assumes "config \<noteq> JUndefined" "config \<noteq> JNull"
  shows "parseComponent_on eng d config permissions =
     enter eng d
       (bindE
          (if truthy (own_prop config ''permission'') then
             bindE (call_builtin eng (Suc d)
                      (set_has permissions (own_prop config ''permission'')))
               (\<lambda>has. Inr (\<not> has))
           else Inr False) (\<lambda>denied.
        bindE
          (if own_prop config ''children'' = JUndefined \<or> own_prop config ''children'' = JNull
           then Inr None
           else
             bindE (array_of (own_prop config ''children'')) (\<lambda>cs.
             enter eng (Suc d)
               (bindE (mapE (\<lambda>child.
                         enter eng (d + 2) (parseComponent_on eng (d + 3) child permissions))
                       cs) (\<lambda>pcs.
                Inr (Some pcs))))) (\<lambda>children.
        Inr (ParsedComponent (own_prop config ''id'') (own_prop config ''type'')
               (spread (own_prop config ''props'')) children
               (if denied then False else own_prop config ''visible'' \<noteq> JBool False)))))"
  by (simp add: parseComponent_on.simps [of eng d config permissions]
        get_prop_defined [OF assms] Let_def)

text \<open>
  A component that \<open>validateComponentConfig_on\<close> accepted in frame \<open>dv\<close> is parsed in every
  frame \<open>dp \<le> dv\<close> without reaching a limit: parsing takes no more frames per level than
  validating, and spreads no list into a call.
\<close>

lemma valid_component_parses_on:
  "validateComponentConfig_on eng dv config pth = Inr [] \<Longrightarrow> dp \<le> dv \<Longrightarrow>
   parseComponent_on eng dp config permissions = parseComponent config permissions"
proof (induction config arbitrary: dv dp pth rule: measure_induct_rule [of size])
  case (less config)
  from valid_component_children_on [OF less.prems(1)] have
    obj: "truthy config" "typeof config = TObject"
    and depth: "Suc dv \<le> max_depth eng"
    and ch: "own_prop config ''children'' = JUndefined
         \<or> (\<exists>cs. own_prop config ''children'' = JArr cs
               \<and> (\<forall>i < length cs. validateComponentConfig_on eng (dv + 3) (cs ! i)
                      (pth @ ''.children['' @ string_of_nat i @ '']'') = Inr []))"
    by auto
  from depth less.prems(2) have dp: "Suc dp \<le> max_depth eng" "dp \<le> max_depth eng"
    by simp_all
  from obj have nn: "config \<noteq> JUndefined" "config \<noteq> JNull" by auto
  have children:
    "(if own_prop config ''children'' = JUndefined \<or> own_prop config ''children'' = JNull
      then Inr None
      else
        bindE (array_of (own_prop config ''children'')) (\<lambda>cs.
        enter eng (Suc dp)
          (bindE (mapE (\<lambda>child.
                    enter eng (dp + 2) (parseComponent_on eng (dp + 3) child permissions))
                  cs) (\<lambda>pcs.
           Inr (Some pcs))))) =
     (if own_prop config ''children'' = JUndefined \<or> own_prop config ''children'' = JNull
      then Inr None
      else
        bindE (array_of (own_prop config ''children'')) (\<lambda>cs.
        bindE (mapE (\<lambda>child. parseComponent child permissions) cs) (\<lambda>pcs.
        Inr (Some pcs))))"
    using ch
  proof
    assume "own_prop config ''children'' = JUndefined"
    then show ?thesis by simp
  next
    assume "\<exists>cs. own_prop config ''children'' = JArr cs
               \<and> (\<forall>i < length cs. validateComponentConfig_on eng (dv + 3) (cs ! i)
                      (pth @ ''.children['' @ string_of_nat i @ '']'') = Inr [])"
    then obtain cs where cs: "own_prop config ''children'' = JArr cs"
      and valid: "\<forall>i < length cs. validateComponentConfig_on eng (dv + 3) (cs ! i)
                      (pth @ ''.children['' @ string_of_nat i @ '']'') = Inr []"
      by blast
    have m: "mapE (\<lambda>child.
                    enter eng (dp + 2) (parseComponent_on eng (dp + 3) child permissions)) cs
           = mapE (\<lambda>child. parseComponent child permissions) cs"
    proof (rule mapE_cong [OF refl])
      fix child assume mem: "child \<in> set cs"
      then obtain i where i: "i < length cs" "child = cs ! i" by (metis in_set_conv_nth)
      with valid have v: "validateComponentConfig_on eng (dv + 3) child
                      (pth @ ''.children['' @ string_of_nat i @ '']'') = Inr []" by simp
      from mem have "size child < size (JArr cs)" by (rule size_arr_elem)
      also have "\<dots> \<le> size config" using size_own_prop [of config "''children''"] cs by simp
      finally have smaller: "size child < size config" .
      have "parseComponent_on eng (dp + 3) child permissions = parseComponent child permissions"
        by (rule less.IH [OF smaller v]) (use less.prems(2) in simp)
      moreover from validateComponentConfig_on_depth [OF v] less.prems(2)
      have "dp + 2 \<le> max_depth eng" by simp
      ultimately show "enter eng (dp + 2) (parseComponent_on eng (dp + 3) child permissions)
          = parseComponent child permissions"
        by (simp only: enter_ok)
    qed
    have "bindE (array_of (JArr cs)) (\<lambda>cs.
        enter eng (Suc dp)
          (bindE (mapE (\<lambda>child.
                    enter eng (dp + 2) (parseComponent_on eng (dp + 3) child permissions))
                  cs) (\<lambda>pcs.
           Inr (Some pcs)))) =
        bindE (mapE (\<lambda>child.
                    enter eng (dp + 2) (parseComponent_on eng (dp + 3) child permissions))
                  cs) (\<lambda>pcs.
           Inr (Some pcs))"
      by (simp add: enter_ok [OF dp(1)])
    also have "\<dots> = bindE (mapE (\<lambda>child. parseComponent child permissions) cs) (\<lambda>pcs.
           Inr (Some pcs))"
      by (simp only: m)
    also have "\<dots> = bindE (array_of (JArr cs)) (\<lambda>cs.
        bindE (mapE (\<lambda>child. parseComponent child permissions) cs) (\<lambda>pcs.
        Inr (Some pcs)))"
      by simp
    finally show ?thesis
      unfolding cs by simp
  qed
  show ?case
    unfolding parseComponent_on_defined [OF nn] parseComponent_defined [OF nn] children
      enter_ok [OF dp(2)]
    by (cases "truthy (own_prop config ''permission'')")
       (simp_all add: call_builtin_ok [OF dp(1)])
qed

lemma initDataSource_on_ok:
  assumes ok: "Suc d \<le> max_depth eng"
  shows "initDataSource_on eng d m ds = initDataSource m ds"
proof -
  from ok have "d \<le> max_depth eng" by simp
  then show ?thesis
    by (simp add: initDataSource_on_def initDataSource_def enter_ok call_builtin_ok [OF ok]
          cong: if_cong)
qed

text \<open>
  After a report \<open>valid\<close> from \<open>validatePageConfig_on\<close> the rest of \<open>parsePageConfig_on\<close>
  reaches no limit, and the page is the one of \<open>parsePageConfig\<close>.
\<close>

lemma parsePageConfig_on_valid:
  assumes res: "validatePageConfig_on eng (Suc d) config = Inr r" and ok: "valid r"
  shows "parsePageConfig_on eng d config userPermissions =
         parsePageConfig config userPermissions"
proof -
  from validatePageConfig_on_depth [OF res] have d2: "Suc (Suc d) \<le> max_depth eng" .
  then have d1: "Suc d \<le> max_depth eng" and d0: "d \<le> max_depth eng" by simp_all
  from validatePageConfig_on_cut [of eng "Suc d" config] res
  have ideal: "validatePageConfig config = Inr r" by (simp add: cut_short_def)
  from valid_page_on [OF res ok] obtain cs where
    obj: "truthy config" "typeof config = TObject"
    and cs: "own_prop config ''components'' = JArr cs"
    and valid_cs: "\<forall>i < length cs. validateComponentConfig_on eng (Suc d + 3) (cs ! i)
                   (''components['' @ string_of_nat i @ '']'') = Inr []"
    and dss: "own_prop config ''dataSource'' = JUndefined
         \<or> (\<exists>dss. own_prop config ''dataSource'' = JArr dss
               \<and> (\<forall>i < length dss. validateDataSourceConfig_on eng (Suc d + 3) (dss ! i)
                      (''dataSource['' @ string_of_nat i @ '']'') = Inr []))"
    by blast
  note gp = get_prop_object [OF obj]
  have m: "mapE (\<lambda>comp.
              enter eng (d + 2) (parseComponent_on eng (d + 3) comp (set userPermissions))) cs
         = mapE (\<lambda>comp. parseComponent comp (set userPermissions)) cs"
  proof (rule mapE_cong [OF refl])
    fix comp assume "comp \<in> set cs"
    then obtain i where i: "i < length cs" "comp = cs ! i" by (metis in_set_conv_nth)
    with valid_cs have v: "validateComponentConfig_on eng (Suc d + 3) comp
                   (''components['' @ string_of_nat i @ '']'') = Inr []" by simp
    have "parseComponent_on eng (d + 3) comp (set userPermissions)
        = parseComponent comp (set userPermissions)"
      by (rule valid_component_parses_on [OF v]) simp
    moreover from d2 have "d + 2 \<le> max_depth eng" by simp
    ultimately show "enter eng (d + 2) (parseComponent_on eng (d + 3) comp (set userPermissions))
        = parseComponent comp (set userPermissions)"
      by (simp only: enter_ok)
  qed
  have comps: "enter eng (Suc d)
          (mapE (\<lambda>comp.
              enter eng (d + 2) (parseComponent_on eng (d + 3) comp (set userPermissions))) cs)
         = mapE (\<lambda>comp. parseComponent comp (set userPermissions)) cs"
    unfolding m by (rule enter_ok [OF d1])
  have ds_part:
    "(if truthy (own_prop config ''dataSource'') then
        bindE (array_of (own_prop config ''dataSource'')) (\<lambda>dss.
        enter eng (Suc d) (foldE (initDataSource_on eng (d + 2)) dss []))
      else Inr []) =
     (if truthy (own_prop config ''dataSource'') then
        bindE (array_of (own_prop config ''dataSource'')) (\<lambda>dss. foldE initDataSource dss [])
      else Inr [])"
    using dss
  proof
    assume "own_prop config ''dataSource'' = JUndefined"
    then show ?thesis by simp
  next
    assume "\<exists>dss. own_prop config ''dataSource'' = JArr dss
               \<and> (\<forall>i < length dss. validateDataSourceConfig_on eng (Suc d + 3) (dss ! i)
                      (''dataSource['' @ string_of_nat i @ '']'') = Inr [])"
    then obtain dss where d: "own_prop config ''dataSource'' = JArr dss"
      and valid_dss: "\<forall>i < length dss. validateDataSourceConfig_on eng (Suc d + 3) (dss ! i)
                      (''dataSource['' @ string_of_nat i @ '']'') = Inr []"
      by blast
    have f: "foldE (initDataSource_on eng (d + 2)) dss [] = foldE initDataSource dss []"
    proof (rule foldE_cong [OF refl refl])
      fix m ds assume "ds \<in> set dss"
      then obtain i where "i < length dss" "ds = dss ! i" by (metis in_set_conv_nth)
      with valid_dss have "validateDataSourceConfig_on eng (Suc d + 3) ds
                      (''dataSource['' @ string_of_nat i @ '']'') = Inr []" by simp
      from validateDataSourceConfig_on_depth [OF this]
      have "Suc (d + 2) \<le> max_depth eng" by simp
      then show "initDataSource_on eng (d + 2) m ds = initDataSource m ds"
        by (rule initDataSource_on_ok)
    qed
    have "bindE (array_of (JArr dss)) (\<lambda>dss.
        enter eng (Suc d) (foldE (initDataSource_on eng (d + 2)) dss [])) =
        foldE (initDataSource_on eng (d + 2)) dss []"
      by (simp add: enter_ok [OF d1])
    also note f
    also have "foldE initDataSource dss [] =
        bindE (array_of (JArr dss)) (\<lambda>dss. foldE initDataSource dss [])"
      by simp
    finally show ?thesis
      unfolding d by simp
  qed
  have "parsePageConfig_on eng d config userPermissions =
      bindE
        (enter eng (Suc d)
          (mapE (\<lambda>comp.
              enter eng (d + 2) (parseComponent_on eng (d + 3) comp (set userPermissions))) cs))
        (\<lambda>components.
      bindE
        (if truthy (own_prop config ''dataSource'') then
           bindE (array_of (own_prop config ''dataSource'')) (\<lambda>dss.
           enter eng (Suc d) (foldE (initDataSource_on eng (d + 2)) dss []))
         else Inr []) (\<lambda>dataSources.
      Inr \<lparr>pp_pageCode = own_prop config ''pageCode'', pp_title = own_prop config ''title'',
           pp_components = components, pp_dataSources = dataSources\<rparr>))"
    by (simp add: parsePageConfig_on_def res ok gp cs enter_ok [OF d0] call_builtin_ok [OF d1])
  also have "\<dots> =
      bindE (mapE (\<lambda>comp. parseComponent comp (set userPermissions)) cs) (\<lambda>components.
      bindE
        (if truthy (own_prop config ''dataSource'') then
           bindE (array_of (own_prop config ''dataSource'')) (\<lambda>dss. foldE initDataSource dss [])
         else Inr []) (\<lambda>dataSources.
      Inr \<lparr>pp_pageCode = own_prop config ''pageCode'', pp_title = own_prop config ''title'',
           pp_components = components, pp_dataSources = dataSources\<rparr>))"
    by (simp only: comps ds_part)
  also have "\<dots> = parsePageConfig config userPermissions"
    by (simp add: parsePageConfig_def ideal ok gp cs)
  finally show ?thesis .
qed

section \<open>Parse errors\<close>

text \<open>
  C3. \<open>parsePageConfig\<close> raises a \<open>ParseError\<close> exactly when its call of
  \<open>validatePageConfig\<close> reports the configuration invalid; the error then carries the whole
  error list of that report; when the report says valid, it returns a parsed page and raises
  nothing. The run is the one under engine limits, \<open>parsePageConfig_on\<close> in frame \<open>d\<close>
  calling \<open>validatePageConfig_on\<close> in frame \<open>d + 1\<close>: a validation cut short by a
  \<open>RangeError\<close> gives no report, and \<open>parsePageConfig\<close> then passes the \<open>RangeError\<close> on.
\<close>

theorem parsePageConfig_throws_iff_invalid:
  "((\<exists>m p es. parsePageConfig_on eng d config userPermissions = Inl (ParseError m p es))
      \<longleftrightarrow> (\<exists>r. validatePageConfig_on eng (Suc d) config = Inr r \<and> \<not> valid r))
   \<and> (\<forall>r. validatePageConfig_on eng (Suc d) config = Inr r \<longrightarrow>
        (\<not> valid r \<longrightarrow>
           parsePageConfig_on eng d config userPermissions =
             Inl (ParseError MsgPageValidationFailed '''' (errors r)))
        \<and> (valid r \<longrightarrow> (\<exists>page. parsePageConfig_on eng d config userPermissions = Inr page)))
   \<and> (\<forall>e. validatePageConfig_on eng (Suc d) config = Inl e \<longrightarrow>
        parsePageConfig_on eng d config userPermissions = Inl RangeError)"
proof (cases "validatePageConfig_on eng (Suc d) config")
  case (Inl e)
  then have "e = RangeError" by (rule validatePageConfig_on_Inl)
  with Inl have "parsePageConfig_on eng d config userPermissions = Inl RangeError"
    by (simp add: parsePageConfig_on_def enter_def)
  with Inl show ?thesis by simp
next
  case (Inr r)
  from validatePageConfig_on_depth [OF Inr] have d2: "Suc (Suc d) \<le> max_depth eng" .
  then have d1: "Suc d \<le> max_depth eng" and d0: "d \<le> max_depth eng" by simp_all
  show ?thesis
  proof (cases "valid r")
    case True
    from validatePageConfig_on_cut [of eng "Suc d" config] Inr
    have "validatePageConfig config = Inr r" by (simp add: cut_short_def)
    from valid_page_parses [OF this True, of userPermissions]
    obtain page where "parsePageConfig config userPermissions = Inr page" by blast
    with parsePageConfig_on_valid [OF Inr True, of userPermissions]
    have "parsePageConfig_on eng d config userPermissions = Inr page" by simp
    with Inr True show ?thesis by simp
  next
    case False
    from d2 have "d + 2 \<le> max_depth eng" by simp
    with False have "parsePageConfig_on eng d config userPermissions =
        Inl (ParseError MsgPageValidationFailed '''' (errors r))"
      by (simp add: parsePageConfig_on_def Inr enter_ok [OF d0] enter_ok [OF d1] enter_def)
    with Inr False show ?thesis by simp
  qed
qed

theorem parsePageConfig_throws_iff_invalid_witness:
  "parsePageConfig_on \<lparr>max_depth = 50, max_args = 10\<rparr> 0
     (JObj [(''pageCode'', JStr ''demo''), (''title'', JStr ''Demo''),
            (''components'', JStr ''not-an-array'')]) []
     = Inl (ParseError MsgPageValidationFailed ''''
             [\<lparr>path = ''components'', message = MsgComponentsMustBeArray,
                code = ''INVALID_TYPE''\<rparr>])
   \<and> (\<exists>page. parsePageConfig_on \<lparr>max_depth = 50, max_args = 10\<rparr> 0
                 (JObj [(''pageCode'', JStr ''demo''), (''title'', JStr ''Demo''),
                        (''components'',
                           JArr [JObj [(''id'', JStr ''btn1''), (''type'', JStr ''MButton'')]])])
                 [] = Inr page)
   \<and> parsePageConfig_on \<lparr>max_depth = 4, max_args = 10\<rparr> 0
        (JObj [(''pageCode'', JStr ''demo''), (''title'', JStr ''Demo''),
               (''components'',
                  JArr [JObj [(''id'', JStr ''btn1''), (''type'', JStr ''MButton'')]])])
        [] = Inl RangeError"
proof -
  have invalid: "validatePageConfig_on \<lparr>max_depth = 50, max_args = 10\<rparr> (Suc 0)
         (JObj [(''pageCode'', JStr ''demo''), (''title'', JStr ''Demo''),
                (''components'', JStr ''not-an-array'')])
      = Inr \<lparr>valid = False,
             errors = [\<lparr>path = ''components'', message = MsgComponentsMustBeArray,
                        code = ''INVALID_TYPE''\<rparr>]\<rparr>"
    by (simp add: validatePageConfig_on_def enter_def call_builtin_def)
  have valid: "validatePageConfig_on \<lparr>max_depth = 50, max_args = 10\<rparr> (Suc 0)
         (JObj [(''pageCode'', JStr ''demo''), (''title'', JStr ''Demo''),
                (''components'',
                   JArr [JObj [(''id'', JStr ''btn1''), (''type'', JStr ''MButton'')]])])
      = Inr \<lparr>valid = True, errors = []\<rparr>"
    by (simp add: validatePageConfig_on_def validateComponentConfig_on.simps enter_def
          call_builtin_def push_spread_def SUPPORTED_COMPONENT_TYPES_def enumerate_eq_zip)
  have stopped: "validatePageConfig_on \<lparr>max_depth = 4, max_args = 10\<rparr> (Suc 0)
         (JObj [(''pageCode'', JStr ''demo''), (''title'', JStr ''Demo''),
                (''components'',
                   JArr [JObj [(''id'', JStr ''btn1''), (''type'', JStr ''MButton'')]])])
      = Inl RangeError"
    by (simp add: validatePageConfig_on_def validateComponentConfig_on.simps enter_def
          call_builtin_def push_spread_def SUPPORTED_COMPONENT_TYPES_def enumerate_eq_zip)
  from parsePageConfig_throws_iff_invalid
         [of "\<lparr>max_depth = 50, max_args = 10\<rparr>" 0
             "JObj [(''pageCode'', JStr ''demo''), (''title'', JStr ''Demo''),
                          (''components'', JStr ''not-an-array'')]" "[]"]
       parsePageConfig_throws_iff_invalid
         [of "\<lparr>max_depth = 50, max_args = 10\<rparr>" 0
             "JObj [(''pageCode'', JStr ''demo''), (''title'', JStr ''Demo''),
                        (''components'',
                           JArr [JObj [(''id'', JStr ''btn1''), (''type'', JStr ''MButton'')]])]" "[]"]
       parsePageConfig_throws_iff_invalid
         [of "\<lparr>max_depth = 4, max_args = 10\<rparr>" 0
             "JObj [(''pageCode'', JStr ''demo''), (''title'', JStr ''Demo''),
                        (''components'',
                           JArr [JObj [(''id'', JStr ''btn1''), (''type'', JStr ''MButton'')]])]" "[]"]
  show ?thesis unfolding invalid valid stopped by simp
qed

section \<open>Validation beyond the engine's limits\<close>

lemma length_concat_singletons: "length (concat (map (\<lambda>x. [f x]) xs)) = length xs"
  by (induction xs) simp_all

text \<open>
  A container with \<open>n\<close> children \<^verbatim>\<open>null\<close> gets \<open>n\<close> errors, one for each child.
\<close>

lemma validateComponentConfig_null_children:
  "\<exists>es. validateComponentConfig
           (JObj [(''id'', JStr ''c1''), (''type'', JStr ''MContainer''),
                  (''children'', JArr (replicate n JNull))]) pth = Inr es
        \<and> length es = n"
proof -
  let ?config = "JObj [(''id'', JStr ''c1''), (''type'', JStr ''MContainer''),
                  (''children'', JArr (replicate n JNull))]"
  let ?err = "\<lambda>i. [\<lparr>path = pth @ ''.children['' @ string_of_nat i @ '']'',
                     message = MsgComponentMustBeObject, code = ''INVALID_CONFIG''\<rparr>]"
  have obj: "truthy ?config" "typeof ?config = TObject" by simp_all
  have fields: "component_field_errors ?config pth = []"
    by (simp add: component_field_errors_def SUPPORTED_COMPONENT_TYPES_def)
  have m: "mapE (\<lambda>(index, child). validateComponentConfig child
                   (pth @ ''.children['' @ string_of_nat index @ '']''))
             (enumerate 0 (replicate n JNull)) = Inr (map ?err [0..<n])"
    unfolding mapE_enumerate_Inr by (simp add: validateComponentConfig_non_object)
  have "validateComponentConfig ?config pth = Inr (concat (map ?err [0..<n]))"
    unfolding validateComponentConfig_object [OF obj] fields
    using m by simp
  moreover have "length (concat (map ?err [0..<n])) = n"
    by (simp add: length_concat_singletons)
  ultimately show ?thesis by blast
qed

lemma validatePageConfig_on_wide:
  "validatePageConfig_on eng d
     (JObj [(''pageCode'', JStr ''p''), (''title'', JStr ''t''),
            (''components'',
               JArr [JObj [(''id'', JStr ''c1''), (''type'', JStr ''MContainer''),
                           (''children'', JArr (replicate (Suc (max_args eng)) JNull))]])])
   = Inl RangeError"
proof -
  let ?comp = "JObj [(''id'', JStr ''c1''), (''type'', JStr ''MContainer''),
                     (''children'', JArr (replicate (Suc (max_args eng)) JNull))]"
  let ?config = "JObj [(''pageCode'', JStr ''p''), (''title'', JStr ''t''),
                       (''components'', JArr [?comp])]"
  have obj: "truthy ?config" "typeof ?config = TObject" by simp_all
  have no_report: "validatePageConfig_on eng d ?config \<noteq> Inr r" for r
  proof
    assume "validatePageConfig_on eng d ?config = Inr r"
    then obtain ce where
      "components_errors_on eng d (own_prop ?config ''components'') = Inr ce"
      unfolding validatePageConfig_on_object [OF obj]
      by (auto simp: enter_Inr_iff bindE_Inr_iff)
    then have "components_errors_on eng d (JArr [?comp]) = Inr ce" by simp
    then obtain ys where
      on: "validateComponentConfig_on eng (d + 3) ?comp
             (''components['' @ string_of_nat 0 @ '']'') = Inr (ys ! 0)"
      and fits: "length (ys ! 0) \<le> max_args eng"
      unfolding components_errors_on_Inr by auto
    from validateComponentConfig_on_cut [of eng "d + 3" ?comp
           "''components['' @ string_of_nat 0 @ '']''"] on
    have "validateComponentConfig ?comp (''components['' @ string_of_nat 0 @ '']'')
            = Inr (ys ! 0)"
      by (simp add: cut_short_def)
    with validateComponentConfig_null_children
           [of "Suc (max_args eng)" "''components['' @ string_of_nat 0 @ '']''"]
    have "length (ys ! 0) = Suc (max_args eng)" by simp
    with fits show False by simp
  qed
  show ?thesis
  proof (cases "validatePageConfig_on eng d ?config")
    case (Inl e)
    then have "e = RangeError" by (rule validatePageConfig_on_Inl)
    with Inl show ?thesis by (simp only:)
  next
    case (Inr r)
    with no_report [of r] show ?thesis by blast
  qed
qed

text \<open>Containers nested \<open>n\<close> deep validate without an error, in frames enough.\<close>

lemma nested_object: "truthy (nested n)" "typeof (nested n) = TObject"
  by (cases n; simp)+

lemma nested_valid: "validateComponentConfig (nested n) pth = Inr []"
proof (induction n arbitrary: pth)
  case 0
  show ?case
    unfolding validateComponentConfig_object [OF nested_object]
    by (simp add: component_field_errors_def SUPPORTED_COMPONENT_TYPES_def)
next
  case (Suc n)
  show ?case
    unfolding validateComponentConfig_object [OF nested_object]
    by (simp add: component_field_errors_def SUPPORTED_COMPONENT_TYPES_def enumerate_eq_zip Suc)
qed

lemma nested_depth:
  "validateComponentConfig_on eng d (nested n) pth = Inr es \<Longrightarrow> d + 3 * n < max_depth eng"
proof (induction n arbitrary: d pth es)
  case 0
  from validateComponentConfig_on_depth [OF 0] show ?case by simp
next
  case (Suc n)
  from Suc.prems obtain ce where
    "children_errors_on eng d pth (own_prop (nested (Suc n)) ''children'') = Inr ce"
    unfolding validateComponentConfig_on_object [OF nested_object]
    by (auto simp: enter_Inr_iff bindE_Inr_iff)
  then have "children_errors_on eng d pth (JArr [nested n]) = Inr ce" by simp
  then obtain ys where
    "validateComponentConfig_on eng (d + 3) (nested n)
       (pth @ ''.children['' @ string_of_nat 0 @ '']'') = Inr (ys ! 0)"
    unfolding children_errors_on_Inr by auto
  from Suc.IH [OF this] show ?case by simp
qed

lemma nested_page_valid:
  "validatePageConfig
     (JObj [(''pageCode'', JStr ''p''), (''title'', JStr ''t''),
            (''components'', JArr [nested n])])
   = Inr \<lparr>valid = True, errors = []\<rparr>"
  by (simp add: validatePageConfig_def enumerate_eq_zip nested_valid)

lemma validatePageConfig_on_deep:
  "validatePageConfig_on eng d
     (JObj [(''pageCode'', JStr ''p''), (''title'', JStr ''t''),
            (''components'', JArr [nested (max_depth eng)])])
   = Inl RangeError"
proof -
  let ?config = "JObj [(''pageCode'', JStr ''p''), (''title'', JStr ''t''),
            (''components'', JArr [nested (max_depth eng)])]"
  have obj: "truthy ?config" "typeof ?config = TObject" by simp_all
  have no_report: "validatePageConfig_on eng d ?config \<noteq> Inr r" for r
  proof
    assume "validatePageConfig_on eng d ?config = Inr r"
    then obtain ce where
      "components_errors_on eng d (own_prop ?config ''components'') = Inr ce"
      unfolding validatePageConfig_on_object [OF obj]
      by (auto simp: enter_Inr_iff bindE_Inr_iff)
    then have "components_errors_on eng d (JArr [nested (max_depth eng)]) = Inr ce" by simp
    then obtain ys where
      "validateComponentConfig_on eng (d + 3) (nested (max_depth eng))
             (''components['' @ string_of_nat 0 @ '']'') = Inr (ys ! 0)"
      unfolding components_errors_on_Inr by auto
    from nested_depth [OF this] show False by simp
  qed
  show ?thesis
  proof (cases "validatePageConfig_on eng d ?config")
    case (Inl e)
    then have "e = RangeError" by (rule validatePageConfig_on_Inl)
    with Inl show ?thesis by (simp only:)
  next
    case (Inr r)
    with no_report [of r] show ?thesis by blast
  qed
qed

text \<open>
  C4. \<open>validatePageConfig\<close> does raise. On a page whose one container has more children
  \<^verbatim>\<open>null\<close> than a call takes arguments, whatever that number is, the call
  \<^verbatim>\<open>errors.push(...compErrors)\<close> gets one error for each child and the run ends in a
  \<open>RangeError\<close>, in every frame and under every stack limit. On a page of containers nested
  as deep as the stack has frames, whatever that number is, the recursion of the validator
  ends in a \<open>RangeError\<close> as well, although the page is a valid one. No report is returned
  in either case.
\<close>

theorem validatePageConfig_raises_RangeError:
  "validatePageConfig_on eng d
     (JObj [(''pageCode'', JStr ''p''), (''title'', JStr ''t''),
            (''components'',
               JArr [JObj [(''id'', JStr ''c1''), (''type'', JStr ''MContainer''),
                           (''children'', JArr (replicate (Suc (max_args eng)) JNull))]])])
     = Inl RangeError
   \<and> validatePageConfig_on eng d
       (JObj [(''pageCode'', JStr ''p''), (''title'', JStr ''t''),
              (''components'', JArr [nested (max_depth eng)])])
     = Inl RangeError
   \<and> validatePageConfig
       (JObj [(''pageCode'', JStr ''p''), (''title'', JStr ''t''),
              (''components'', JArr [nested (max_depth eng)])])
     = Inr \<lparr>valid = True, errors = []\<rparr>"
  by (simp only: validatePageConfig_on_wide validatePageConfig_on_deep nested_page_valid
        simp_thms)

theorem validatePageConfig_raises_RangeError_witness:
  "validatePageConfig_on \<lparr>max_depth = 2, max_args = 2\<rparr> 0
     (JObj [(''pageCode'', JStr ''p''), (''title'', JStr ''t''),
            (''components'',
               JArr [JObj [(''id'', JStr ''c1''), (''type'', JStr ''MContainer''),
                           (''children'', JArr [JNull, JNull, JNull])]])])
     = Inl RangeError
   \<and> validatePageConfig_on \<lparr>max_depth = 2, max_args = 2\<rparr> 0
       (JObj [(''pageCode'', JStr ''p''), (''title'', JStr ''t''),
              (''components'',
                 JArr [JObj [(''id'', JStr ''c''), (''type'', JStr ''MContainer''),
                   (''children'',
                      JArr [JObj [(''id'', JStr ''c''), (''type'', JStr ''MContainer''),
                        (''children'',
                           JArr [JObj [(''id'', JStr ''c''),
                                       (''type'', JStr ''MContainer'')]])]])]])])
     = Inl RangeError
   \<and> validatePageConfig
       (JObj [(''pageCode'', JStr ''p''), (''title'', JStr ''t''),
              (''components'',
                 JArr [JObj [(''id'', JStr ''c''), (''type'', JStr ''MContainer''),
                   (''children'',
                      JArr [JObj [(''id'', JStr ''c''), (''type'', JStr ''MContainer''),
                        (''children'',
                           JArr [JObj [(''id'', JStr ''c''),
                                       (''type'', JStr ''MContainer'')]])]])]])])
     = Inr \<lparr>valid = True, errors = []\<rparr>"
  using validatePageConfig_raises_RangeError [of "\<lparr>max_depth = 2, max_args = 2\<rparr>" 0]
  by (simp add: numeral_2_eq_2)

section \<open>The parsed tree mirrors the configuration\<close>

lemma parseComponent_Inr:
  assumes "parseComponent c permissions = Inr pc"
  shows "c \<noteq> JUndefined \<and> c \<noteq> JNull
     \<and> pc_id pc = own_prop c ''id'' \<and> pc_type pc = own_prop c ''type''
     \<and> pc_props pc = spread (own_prop c ''props'')
     \<and> pc_visible pc =
         (own_prop c ''visible'' \<noteq> JBool False
          \<and> \<not> (truthy (own_prop c ''permission'')
                \<and> \<not> set_has permissions (own_prop c ''permission'')))
     \<and> (if own_prop c ''children'' = JUndefined \<or> own_prop c ''children'' = JNull
         then pc_children pc = None
         else \<exists>cs pcs. own_prop c ''children'' = JArr cs \<and> pc_children pc = Some pcs
                \<and> length pcs = length cs
                \<and> (\<forall>i < length cs. parseComponent (cs ! i) permissions = Inr (pcs ! i)))"
proof -
  have nn: "c \<noteq> JUndefined" "c \<noteq> JNull"
    using assms parseComponent_undefined [of c permissions] by auto
  note unf = parseComponent_defined [OF nn, of permissions]
  show ?thesis
  proof (cases "own_prop c ''children'' = JUndefined \<or> own_prop c ''children'' = JNull")
    case True
    with assms unf nn show ?thesis by (auto split: if_splits)
  next
    case False
    with assms unf obtain cs pcs where
      cs: "array_of (own_prop c ''children'') = Inr cs"
      and pcs: "mapE (\<lambda>child. parseComponent child permissions) cs = Inr pcs"
      and pc: "pc = ParsedComponent (own_prop c ''id'') (own_prop c ''type'')
                 (spread (own_prop c ''props'')) (Some pcs)
                 (if truthy (own_prop c ''permission'')
                     \<and> \<not> set_has permissions (own_prop c ''permission'')
                  then False else own_prop c ''visible'' \<noteq> JBool False)"
      by (auto simp: bindE_Inr_iff)
    from cs have arr: "own_prop c ''children'' = JArr cs"
      by (cases "own_prop c ''children''") auto
    from pcs have "length pcs = length cs"
      "\<forall>i < length cs. parseComponent (cs ! i) permissions = Inr (pcs ! i)"
      by (simp_all add: mapE_nth_Inr)
    with False nn pc arr show ?thesis by (auto split: if_splits)
  qed
qed

lemma parseComponent_at:
  "parseComponent c permissions = Inr pc \<Longrightarrow>
   (case component_at c p of
      None \<Rightarrow> parsed_at pc p = None
    | Some n \<Rightarrow> \<exists>pn. parsed_at pc p = Some pn \<and> parseComponent n permissions = Inr pn)"
proof (induction p arbitrary: c pc)
  case Nil
  then show ?case by simp
next
  case (Cons i p)
  note facts = parseComponent_Inr [OF Cons.prems]
  show ?case
  proof (cases "own_prop c ''children'' = JUndefined \<or> own_prop c ''children'' = JNull")
    case True
    with facts show ?thesis by auto
  next
    case False
    with facts obtain cs pcs where
      cs: "own_prop c ''children'' = JArr cs" and pcs: "pc_children pc = Some pcs"
      and len: "length pcs = length cs"
      and calls: "\<forall>i < length cs. parseComponent (cs ! i) permissions = Inr (pcs ! i)"
      by auto
    show ?thesis
    proof (cases "i < length cs")
      case True
      with calls have "parseComponent (cs ! i) permissions = Inr (pcs ! i)" by simp
      from Cons.IH [OF this] True cs pcs len show ?thesis by (auto split: option.splits)
    next
      case False
      with cs pcs len show ?thesis by simp
    qed
  qed
qed

lemma valid_component_at:
  "validateComponentConfig c pth = Inr [] \<Longrightarrow> component_at c p = Some n \<Longrightarrow>
   \<exists>pth'. validateComponentConfig n pth' = Inr []"
proof (induction p arbitrary: c pth)
  case Nil
  then show ?case by auto
next
  case (Cons i p)
  from Cons.prems(2) obtain cs where cs: "own_prop c ''children'' = JArr cs"
    and i: "i < length cs" and at: "component_at (cs ! i) p = Some n"
    by (auto split: jsval.splits if_splits)
  from valid_component_children [OF Cons.prems(1)] cs i
  have "validateComponentConfig (cs ! i) (pth @ ''.children['' @ string_of_nat i @ '']'') = Inr []"
    by auto
  from Cons.IH [OF this at] show ?case .
qed

text \<open>
  C1. For a configuration that passes \<open>validatePageConfig\<close>, \<open>parsePageConfig\<close> returns a
  page with as many top-level components as the configuration, and at every position of
  every component tree the parsed node exists exactly when the configured node does, has
  its \<open>id\<close> and \<open>type\<close>, and has a children array of the same length (or none when the
  node has none): nothing is dropped or reordered, whatever the visibility.
\<close>

theorem parsePageConfig_structure_preserving:
  assumes "validatePageConfig config = Inr r" and "valid r"
  shows "\<exists>page cs. parsePageConfig config userPermissions = Inr page
     \<and> own_prop config ''components'' = JArr cs
     \<and> length (pp_components page) = length cs
     \<and> (\<forall>i < length cs. \<forall>p.
          (case component_at (cs ! i) p of
             None \<Rightarrow> parsed_at (pp_components page ! i) p = None
           | Some n \<Rightarrow>
               \<exists>pn. parsed_at (pp_components page ! i) p = Some pn
                 \<and> pc_id pn = own_prop n ''id'' \<and> pc_type pn = own_prop n ''type''
                 \<and> (case own_prop n ''children'' of
                      JArr ks \<Rightarrow> \<exists>pks. pc_children pn = Some pks \<and> length pks = length ks
                    | _ \<Rightarrow> pc_children pn = None)))"
proof -
  from valid_page_parses [OF assms, of userPermissions] obtain cs pcs page where
    cs: "own_prop config ''components'' = JArr cs"
    and pcs: "mapE (\<lambda>comp. parseComponent comp (set userPermissions)) cs = Inr pcs"
    and page: "parsePageConfig config userPermissions = Inr page"
    and comps: "pp_components page = pcs"
    by force
  from pcs have len: "length pcs = length cs"
    and calls: "\<forall>i < length cs. parseComponent (cs ! i) (set userPermissions) = Inr (pcs ! i)"
    by (simp_all add: mapE_nth_Inr)
  have "case component_at (cs ! i) p of
             None \<Rightarrow> parsed_at (pcs ! i) p = None
           | Some n \<Rightarrow>
               \<exists>pn. parsed_at (pcs ! i) p = Some pn
                 \<and> pc_id pn = own_prop n ''id'' \<and> pc_type pn = own_prop n ''type''
                 \<and> (case own_prop n ''children'' of
                      JArr ks \<Rightarrow> \<exists>pks. pc_children pn = Some pks \<and> length pks = length ks
                    | _ \<Rightarrow> pc_children pn = None)"
    if i: "i < length cs" for i p
  proof (cases "component_at (cs ! i) p")
    case None
    with parseComponent_at [of "cs ! i" "set userPermissions" "pcs ! i" p] calls i
    show ?thesis by simp
  next
    case (Some n)
    with parseComponent_at [of "cs ! i" "set userPermissions" "pcs ! i" p] calls i
    obtain pn where pn: "parsed_at (pcs ! i) p = Some pn"
      and call: "parseComponent n (set userPermissions) = Inr pn"
      by auto
    note facts = parseComponent_Inr [OF call]
    have "case own_prop n ''children'' of
            JArr ks \<Rightarrow> \<exists>pks. pc_children pn = Some pks \<and> length pks = length ks
          | _ \<Rightarrow> pc_children pn = None"
      using facts by (cases "own_prop n ''children''") auto
    with Some pn facts show ?thesis by simp
  qed
  with cs page comps len show ?thesis by auto
qed

theorem parsePageConfig_structure_preserving_witness:
  "\<exists>page. parsePageConfig
      (JObj [(''pageCode'', JStr ''demo''), (''title'', JStr ''Demo''),
             (''components'',
                JArr [JObj [(''id'', JStr ''box''), (''type'', JStr ''MContainer''),
                            (''visible'', JBool False),
                            (''children'',
                               JArr [JObj [(''id'', JStr ''btn1''), (''type'', JStr ''MButton''),
                                           (''permission'', JStr ''admin'')],
                                     JObj [(''id'', JStr ''in1''), (''type'', JStr ''MInput'')]])]])])
      [''view''] = Inr page
    \<and> length (pp_components page) = 1
    \<and> (\<exists>pn. parsed_at (pp_components page ! 0) [1] = Some pn
          \<and> pc_id pn = JStr ''in1'' \<and> pc_type pn = JStr ''MInput'' \<and> pc_children pn = None)"
proof -
  let ?box = "JObj [(''id'', JStr ''box''), (''type'', JStr ''MContainer''),
                    (''visible'', JBool False),
                    (''children'',
                       JArr [JObj [(''id'', JStr ''btn1''), (''type'', JStr ''MButton''),
                                   (''permission'', JStr ''admin'')],
                             JObj [(''id'', JStr ''in1''), (''type'', JStr ''MInput'')]])]"
  let ?cfg = "JObj [(''pageCode'', JStr ''demo''), (''title'', JStr ''Demo''),
                    (''components'', JArr [?box])]"
  have v: "validatePageConfig ?cfg = Inr \<lparr>valid = True, errors = []\<rparr>"
    by (simp add: validatePageConfig_def validateComponentConfig.simps
          SUPPORTED_COMPONENT_TYPES_def enumerate_eq_zip)
  have ok: "valid \<lparr>valid = True, errors = []\<rparr>" by simp
  from parsePageConfig_structure_preserving [OF v ok, of "[''view'']"]
  obtain page where page: "parsePageConfig ?cfg [''view''] = Inr page"
    and len: "length (pp_components page) = 1"
    and nodes: "\<forall>p. (case component_at ?box p of
             None \<Rightarrow> parsed_at (pp_components page ! 0) p = None
           | Some n \<Rightarrow>
               \<exists>pn. parsed_at (pp_components page ! 0) p = Some pn
                 \<and> pc_id pn = own_prop n ''id'' \<and> pc_type pn = own_prop n ''type''
                 \<and> (case own_prop n ''children'' of
                      JArr ks \<Rightarrow> \<exists>pks. pc_children pn = Some pks \<and> length pks = length ks
                    | _ \<Rightarrow> pc_children pn = None))"
    by auto
  from nodes [rule_format, of "[1]"] page len show ?thesis
    by (simp add: array_index_def)
qed

text \<open>
  C2. For a configuration that passes \<open>validatePageConfig\<close> and every node of its
  component trees whose \<open>permission\<close> is absent or a string (as \<open>ComponentConfig\<close>
  declares it), the parsed node's \<open>visible\<close> is the boolean "the node's own \<open>visible\<close> is
  not \<^verbatim>\<open>false\<close>, and its permission is absent, empty or in the caller's set". Only the
  node's own two fields occur: a hidden parent changes nothing for its children.
\<close>

theorem parsePageConfig_visibility:
  assumes "validatePageConfig config = Inr r" and "valid r"
  shows "\<exists>page cs. parsePageConfig config userPermissions = Inr page
     \<and> own_prop config ''components'' = JArr cs
     \<and> (\<forall>i < length cs. \<forall>p n.
          component_at (cs ! i) p = Some n \<longrightarrow>
          (own_prop n ''permission'' = JUndefined \<or> (\<exists>s. own_prop n ''permission'' = JStr s)) \<longrightarrow>
          (\<exists>pn. parsed_at (pp_components page ! i) p = Some pn
             \<and> pc_visible pn =
                 (own_prop n ''visible'' \<noteq> JBool False
                  \<and> permission_passes (set userPermissions) (own_prop n ''permission''))))"
proof -
  from valid_page_parses [OF assms, of userPermissions] obtain cs pcs page where
    cs: "own_prop config ''components'' = JArr cs"
    and pcs: "mapE (\<lambda>comp. parseComponent comp (set userPermissions)) cs = Inr pcs"
    and page: "parsePageConfig config userPermissions = Inr page"
    and comps: "pp_components page = pcs"
    by force
  from pcs have
    calls: "\<forall>i < length cs. parseComponent (cs ! i) (set userPermissions) = Inr (pcs ! i)"
    by (simp add: mapE_nth_Inr)
  have "\<exists>pn. parsed_at (pcs ! i) p = Some pn
             \<and> pc_visible pn =
                 (own_prop n ''visible'' \<noteq> JBool False
                  \<and> permission_passes (set userPermissions) (own_prop n ''permission''))"
    if i: "i < length cs" and n: "component_at (cs ! i) p = Some n"
      and typed: "own_prop n ''permission'' = JUndefined \<or> (\<exists>s. own_prop n ''permission'' = JStr s)"
    for i p n
  proof -
    from parseComponent_at [of "cs ! i" "set userPermissions" "pcs ! i" p] calls i n
    obtain pn where pn: "parsed_at (pcs ! i) p = Some pn"
      and call: "parseComponent n (set userPermissions) = Inr pn"
      by auto
    from parseComponent_Inr [OF call] have
      "pc_visible pn =
         (own_prop n ''visible'' \<noteq> JBool False
          \<and> \<not> (truthy (own_prop n ''permission'')
                \<and> \<not> set_has (set userPermissions) (own_prop n ''permission'')))"
      by simp
    also from typed have "\<not> (truthy (own_prop n ''permission'')
                \<and> \<not> set_has (set userPermissions) (own_prop n ''permission''))
        \<longleftrightarrow> permission_passes (set userPermissions) (own_prop n ''permission'')"
      by auto
    finally show ?thesis using pn by simp
  qed
  then have "\<forall>i < length cs. \<forall>p n.
          component_at (cs ! i) p = Some n \<longrightarrow>
          (own_prop n ''permission'' = JUndefined \<or> (\<exists>s. own_prop n ''permission'' = JStr s)) \<longrightarrow>
          (\<exists>pn. parsed_at (pp_components page ! i) p = Some pn
             \<and> pc_visible pn =
                 (own_prop n ''visible'' \<noteq> JBool False
                  \<and> permission_passes (set userPermissions) (own_prop n ''permission'')))"
    unfolding comps by blast
  with cs page show ?thesis by blast
qed

theorem parsePageConfig_visibility_witness:
  "\<exists>page. parsePageConfig
      (JObj [(''pageCode'', JStr ''demo''), (''title'', JStr ''Demo''),
             (''components'',
                JArr [JObj [(''id'', JStr ''box''), (''type'', JStr ''MContainer''),
                            (''visible'', JBool False),
                            (''children'',
                               JArr [JObj [(''id'', JStr ''btn1''), (''type'', JStr ''MButton''),
                                           (''permission'', JStr ''admin'')],
                                     JObj [(''id'', JStr ''in1''), (''type'', JStr ''MInput'')]])]])])
      [''view''] = Inr page
    \<and> (\<exists>pn. parsed_at (pp_components page ! 0) [] = Some pn \<and> pc_visible pn = False)
    \<and> (\<exists>pn. parsed_at (pp_components page ! 0) [0] = Some pn \<and> pc_visible pn = False)
    \<and> (\<exists>pn. parsed_at (pp_components page ! 0) [1] = Some pn \<and> pc_visible pn = True)"
proof -
  let ?btn = "JObj [(''id'', JStr ''btn1''), (''type'', JStr ''MButton''),
                    (''permission'', JStr ''admin'')]"
  let ?inp = "JObj [(''id'', JStr ''in1''), (''type'', JStr ''MInput'')]"
  let ?box = "JObj [(''id'', JStr ''box''), (''type'', JStr ''MContainer''),
                    (''visible'', JBool False), (''children'', JArr [?btn, ?inp])]"
  let ?cfg = "JObj [(''pageCode'', JStr ''demo''), (''title'', JStr ''Demo''),
                    (''components'', JArr [?box])]"
  have v: "validatePageConfig ?cfg = Inr \<lparr>valid = True, errors = []\<rparr>"
    by (simp add: validatePageConfig_def validateComponentConfig.simps
          SUPPORTED_COMPONENT_TYPES_def enumerate_eq_zip)
  have ok: "valid \<lparr>valid = True, errors = []\<rparr>" by simp
  from parsePageConfig_visibility [OF v ok, of "[''view'']"]
  obtain page where page: "parsePageConfig ?cfg [''view''] = Inr page"
    and nodes: "\<forall>p n. component_at ?box p = Some n \<longrightarrow>
          (own_prop n ''permission'' = JUndefined \<or> (\<exists>s. own_prop n ''permission'' = JStr s)) \<longrightarrow>
          (\<exists>pn. parsed_at (pp_components page ! 0) p = Some pn
             \<and> pc_visible pn =
                 (own_prop n ''visible'' \<noteq> JBool False
                  \<and> permission_passes (set [''view'']) (own_prop n ''permission'')))"
    by auto
  from nodes [rule_format, of "[]" ?box]
  have a: "\<exists>pn. parsed_at (pp_components page ! 0) [] = Some pn \<and> pc_visible pn = False"
    by simp
  from nodes [rule_format, of "[0]" ?btn]
  have b: "\<exists>pn. parsed_at (pp_components page ! 0) [0] = Some pn \<and> pc_visible pn = False"
    by (simp add: array_index_def)
  from nodes [rule_format, of "[1]" ?inp]
  have c: "\<exists>pn. parsed_at (pp_components page ! 0) [1] = Some pn \<and> pc_visible pn = True"
    by (simp add: array_index_def)
  from page a b c show ?thesis by blast
qed

section \<open>Initial data sources\<close>

lemma map_of_js_map_set: "map_of (js_map_set m k v) = (map_of m)(k \<mapsto> v)"
  by (induction m) auto

lemma map_of_dataSource_entry_other:
  "own_prop ds ''id'' \<noteq> k \<Longrightarrow> map_of (dataSource_entry ds m) k = map_of m k"
  by (simp add: dataSource_entry_def map_of_js_map_set)

lemma map_of_dataSource_entry_self:
  "map_of (dataSource_entry ds m) (own_prop ds ''id'') =
     Some (if own_prop ds ''type'' = JStr ''static''
              \<and> js_in ''data'' (own_prop ds ''config'') = Inr True
           then own_prop (own_prop ds ''config'') ''data'' else JNull)"
  by (simp add: dataSource_entry_def map_of_js_map_set)

lemma fold_dataSource_entry_other:
  "(\<And>ds. ds \<in> set dss \<Longrightarrow> own_prop ds ''id'' \<noteq> k) \<Longrightarrow>
   map_of (fold dataSource_entry dss m) k = map_of m k"
  by (induction dss arbitrary: m) (simp_all add: map_of_dataSource_entry_other)

lemma fold_dataSource_entry_last:
  assumes "i < length dss"
    and "\<forall>j. i < j \<and> j < length dss \<longrightarrow> own_prop (dss ! j) ''id'' \<noteq> own_prop (dss ! i) ''id''"
  shows "js_map_get (fold dataSource_entry dss m) (own_prop (dss ! i) ''id'') =
     Some (if own_prop (dss ! i) ''type'' = JStr ''static''
              \<and> js_in ''data'' (own_prop (dss ! i) ''config'') = Inr True
           then own_prop (own_prop (dss ! i) ''config'') ''data'' else JNull)"
  using assms
proof (induction dss arbitrary: m i)
  case Nil
  then show ?case by simp
next
  case (Cons ds dss)
  show ?case
  proof (cases i)
    case 0
    have "own_prop d ''id'' \<noteq> own_prop ds ''id''" if "d \<in> set dss" for d
    proof -
      from that obtain j where "j < length dss" "d = dss ! j" by (metis in_set_conv_nth)
      with Cons.prems(2) [rule_format, of "Suc j"] 0 show ?thesis by simp
    qed
    then have "map_of (fold dataSource_entry dss (dataSource_entry ds m)) (own_prop ds ''id'')
        = map_of (dataSource_entry ds m) (own_prop ds ''id'')"
      by (rule fold_dataSource_entry_other)
    with 0 show ?thesis
      by (simp only: js_map_get_def map_of_dataSource_entry_self fold_simps nth_Cons_0)
  next
    case (Suc i')
    with Cons.prems have i': "i' < length dss" by simp
    have later: "\<forall>j. i' < j \<and> j < length dss \<longrightarrow>
        own_prop (dss ! j) ''id'' \<noteq> own_prop (dss ! i') ''id''"
    proof (intro allI impI)
      fix j assume "i' < j \<and> j < length dss"
      with Cons.prems(2) [rule_format, of "Suc j"] Suc
      show "own_prop (dss ! j) ''id'' \<noteq> own_prop (dss ! i') ''id''" by simp
    qed
    from Cons.IH [OF i' later, of "dataSource_entry ds m"] Suc show ?thesis by simp
  qed
qed

text \<open>
  C5 (as amended). For a configuration that passes \<open>validatePageConfig\<close>, the parse
  succeeds; without a \<open>dataSource\<close> field the \<open>dataSources\<close> map is empty; and for every
  data-source entry whose \<open>id\<close> no later entry repeats (ids are unique in a page by the
  data model), the map sends the \<open>id\<close> to \<open>config.data\<close> when the type is \<open>static\<close> and
  \<open>config\<close> has a \<open>data\<close> key, and to \<^verbatim>\<open>null\<close> otherwise, so for every \<open>api\<close> or
  \<open>computed\<close> entry.
\<close>

theorem parsePageConfig_dataSources:
  assumes "validatePageConfig config = Inr r" and "valid r"
  shows "\<exists>page. parsePageConfig config userPermissions = Inr page
     \<and> (own_prop config ''dataSource'' = JUndefined \<longrightarrow> pp_dataSources page = [])
     \<and> (\<forall>dss i. own_prop config ''dataSource'' = JArr dss \<and> i < length dss
           \<and> (\<forall>j. i < j \<and> j < length dss \<longrightarrow>
                  own_prop (dss ! j) ''id'' \<noteq> own_prop (dss ! i) ''id'') \<longrightarrow>
           js_map_get (pp_dataSources page) (own_prop (dss ! i) ''id'') =
             Some (if own_prop (dss ! i) ''type'' = JStr ''static''
                      \<and> js_in ''data'' (own_prop (dss ! i) ''config'') = Inr True
                   then own_prop (own_prop (dss ! i) ''config'') ''data'' else JNull))"
proof -
  from valid_page_parses [OF assms, of userPermissions] obtain page where
    page: "parsePageConfig config userPermissions = Inr page"
    and ds: "pp_dataSources page =
                (case own_prop config ''dataSource'' of
                   JArr dss \<Rightarrow> fold dataSource_entry dss []
                 | _ \<Rightarrow> [])"
    by force
  have a: "own_prop config ''dataSource'' = JUndefined \<longrightarrow> pp_dataSources page = []"
    using ds by simp
  have b: "js_map_get (pp_dataSources page) (own_prop (dss ! i) ''id'') =
             Some (if own_prop (dss ! i) ''type'' = JStr ''static''
                      \<and> js_in ''data'' (own_prop (dss ! i) ''config'') = Inr True
                   then own_prop (own_prop (dss ! i) ''config'') ''data'' else JNull)"
    if "own_prop config ''dataSource'' = JArr dss" "i < length dss"
      "\<forall>j. i < j \<and> j < length dss \<longrightarrow> own_prop (dss ! j) ''id'' \<noteq> own_prop (dss ! i) ''id''"
    for dss i
    using that ds fold_dataSource_entry_last [of i dss "[]"] by simp
  from page a b show ?thesis by blast
qed

theorem parsePageConfig_dataSources_witness:
  "\<exists>page. parsePageConfig
      (JObj [(''pageCode'', JStr ''demo''), (''title'', JStr ''Demo''), (''components'', JArr []),
             (''dataSource'',
                JArr [JObj [(''id'', JStr ''rows''), (''type'', JStr ''static''),
                            (''config'', JObj [(''data'', JArr [JNum 1, JNum 2, JNum 3])])],
                      JObj [(''id'', JStr ''remote''), (''type'', JStr ''api''),
                            (''config'', JObj [(''url'', JStr ''/api/data''),
                                               (''method'', JStr ''GET'')])]])])
      [] = Inr page
    \<and> js_map_get (pp_dataSources page) (JStr ''rows'') = Some (JArr [JNum 1, JNum 2, JNum 3])
    \<and> js_map_get (pp_dataSources page) (JStr ''remote'') = Some JNull"
proof -
  let ?rows = "JObj [(''id'', JStr ''rows''), (''type'', JStr ''static''),
                     (''config'', JObj [(''data'', JArr [JNum 1, JNum 2, JNum 3])])]"
  let ?remote = "JObj [(''id'', JStr ''remote''), (''type'', JStr ''api''),
                       (''config'', JObj [(''url'', JStr ''/api/data''),
                                          (''method'', JStr ''GET'')])]"
  let ?cfg = "JObj [(''pageCode'', JStr ''demo''), (''title'', JStr ''Demo''),
                    (''components'', JArr []), (''dataSource'', JArr [?rows, ?remote])]"
  have v: "validatePageConfig ?cfg = Inr \<lparr>valid = True, errors = []\<rparr>"
    by (simp add: validatePageConfig_def validateDataSourceConfig.simps enumerate_eq_zip)
  have ok: "valid \<lparr>valid = True, errors = []\<rparr>" by simp
  from parsePageConfig_dataSources [OF v ok, of "[]"]
  obtain page where page: "parsePageConfig ?cfg [] = Inr page"
    and entries: "\<forall>dss i. own_prop ?cfg ''dataSource'' = JArr dss \<and> i < length dss
           \<and> (\<forall>j. i < j \<and> j < length dss \<longrightarrow>
                  own_prop (dss ! j) ''id'' \<noteq> own_prop (dss ! i) ''id'') \<longrightarrow>
           js_map_get (pp_dataSources page) (own_prop (dss ! i) ''id'') =
             Some (if own_prop (dss ! i) ''type'' = JStr ''static''
                      \<and> js_in ''data'' (own_prop (dss ! i) ''config'') = Inr True
                   then own_prop (own_prop (dss ! i) ''config'') ''data'' else JNull)"
    by blast
  have later0: "\<forall>j. 0 < j \<and> j < length [?rows, ?remote] \<longrightarrow>
      own_prop ([?rows, ?remote] ! j) ''id'' \<noteq> own_prop ([?rows, ?remote] ! 0) ''id''"
    by (auto simp: less_Suc_eq nth_Cons split: nat.splits)
  from entries [rule_format, of "[?rows, ?remote]" 0] later0
  have a: "js_map_get (pp_dataSources page) (JStr ''rows'') = Some (JArr [JNum 1, JNum 2, JNum 3])"
    by simp
  from entries [rule_format, of "[?rows, ?remote]" 1]
  have b: "js_map_get (pp_dataSources page) (JStr ''remote'') = Some JNull"
    by simp
  from page a b show ?thesis by blast
qed

theorem parsePageConfig_dataSources_counterexample:
  "parsePageConfig
      (JObj [(''pageCode'', JStr ''demo''), (''title'', JStr ''Demo''), (''components'', JArr []),
             (''dataSource'',
                JArr [JObj [(''id'', JStr ''rows''), (''type'', JStr ''static''),
                            (''config'', JObj [])]])])
      []
     = Inr \<lparr>pp_pageCode = JStr ''demo'', pp_title = JStr ''Demo'', pp_components = [],
            pp_dataSources = [(JStr ''rows'', JNull)]\<rparr>
   \<and> own_prop (JObj []) ''data'' = JUndefined
   \<and> JNull \<noteq> JUndefined"
  by (simp add: parsePageConfig_def validatePageConfig_def validateDataSourceConfig.simps
        initDataSource_def enumerate_eq_zip)

text \<open>
  C10. For a configuration that passes \<open>validatePageConfig\<close> and an entry of its
  \<open>dataSource\<close> array of type \<open>static\<close> whose \<open>config\<close> has no \<open>data\<close> key, the
  \<open>dataSources\<close> map of the parsed page sends the entry's \<open>id\<close> to \<^verbatim>\<open>null\<close>, the
  placeholder of \<open>api\<close> and \<open>computed\<close> sources. (Ids are unique in a page by the data
  model; the statement needs only that no later entry repeats this one's \<open>id\<close>.)
\<close>

theorem parsePageConfig_static_without_data:
  assumes "validatePageConfig config = Inr r" and "valid r"
    and "own_prop config ''dataSource'' = JArr dss" and "i < length dss"
    and "own_prop (dss ! i) ''type'' = JStr ''static''"
    and "js_in ''data'' (own_prop (dss ! i) ''config'') = Inr False"
    and "\<forall>j. i < j \<and> j < length dss \<longrightarrow> own_prop (dss ! j) ''id'' \<noteq> own_prop (dss ! i) ''id''"
  shows "\<exists>page. parsePageConfig config userPermissions = Inr page
     \<and> js_map_get (pp_dataSources page) (own_prop (dss ! i) ''id'') = Some JNull"
proof -
  from valid_page_parses [OF assms(1,2), of userPermissions] assms(3) obtain page where
    page: "parsePageConfig config userPermissions = Inr page"
    and ds: "pp_dataSources page = fold dataSource_entry dss []"
    by force
  from fold_dataSource_entry_last [OF assms(4,7), of "[]"] assms(6) ds
  have "js_map_get (pp_dataSources page) (own_prop (dss ! i) ''id'') = Some JNull" by simp
  with page show ?thesis by blast
qed

theorem parsePageConfig_static_without_data_witness:
  "\<exists>page. parsePageConfig
      (JObj [(''pageCode'', JStr ''demo''), (''title'', JStr ''Demo''), (''components'', JArr []),
             (''dataSource'',
                JArr [JObj [(''id'', JStr ''empty''), (''type'', JStr ''static''),
                            (''config'', JObj [(''rows'', JArr [])])]])])
      [] = Inr page
    \<and> js_map_get (pp_dataSources page) (JStr ''empty'') = Some JNull"
proof -
  let ?ds = "JObj [(''id'', JStr ''empty''), (''type'', JStr ''static''),
                   (''config'', JObj [(''rows'', JArr [])])]"
  let ?cfg = "JObj [(''pageCode'', JStr ''demo''), (''title'', JStr ''Demo''),
                    (''components'', JArr []), (''dataSource'', JArr [?ds])]"
  have v: "validatePageConfig ?cfg = Inr \<lparr>valid = True, errors = []\<rparr>"
    by (simp add: validatePageConfig_def validateDataSourceConfig.simps enumerate_eq_zip)
  have ok: "valid \<lparr>valid = True, errors = []\<rparr>" by simp
  have "\<exists>page. parsePageConfig ?cfg [] = Inr page
     \<and> js_map_get (pp_dataSources page) (own_prop ([?ds] ! 0) ''id'') = Some JNull"
    by (rule parsePageConfig_static_without_data [OF v ok]) auto
  then show ?thesis by simp
qed

section \<open>Collected data bindings\<close>

lemma add_fields_add_fields:
  "add_fields (\<lambda>k. add_fields f k (a k)) k (b k) = add_fields f k (a k @ b k)"
  by (auto simp: add_fields_def split: option.splits)

lemma bound_fields_append:
  "bound_fields s (xs @ ys) = bound_fields s xs @ bound_fields s ys"
  by (simp add: bound_fields_def)

lemma collectBindings_Nil: "collectBindings (JArr []) m = Inr m"
  by (simp add: collectBindings.simps)

lemma collectBindings_Cons:
  "collectBindings (JArr (c # cs)) m =
     bindE
       (bindE (get_prop c ''dataBinding'') (\<lambda>dataBinding.
        bindE
          (if truthy dataBinding then
             bindE (get_prop dataBinding ''source'') (\<lambda>source.
             (let bindings1 =
                (if \<not> js_map_has m source then js_map_set m source [] else m)
              in
             (case js_map_get bindings1 source of
                None \<Rightarrow> Inl TypeError
              | Some arr \<Rightarrow>
                  bindE (get_prop dataBinding ''field'') (\<lambda>field.
                  Inr (js_map_set bindings1 source (arr @ [field]))))))
           else Inr m) (\<lambda>bindings2.
        bindE (get_prop c ''children'') (\<lambda>children.
        if truthy children then collectBindings children bindings2
        else Inr bindings2))))
       (\<lambda>m1. collectBindings (JArr cs) m1)"
  by (simp add: collectBindings.simps [of "JArr (c # cs)"] collectBindings.simps [of "JArr cs"])

lemma own_binding:
  assumes "is_ComponentConfig c"
  shows "\<exists>m2. (\<forall>k. map_of m2 k = add_fields (map_of m) k (bound_fields k [c]))
     \<and> (bindE (get_prop c ''dataBinding'') (\<lambda>dataBinding.
          bindE
          (if truthy dataBinding then
             bindE (get_prop dataBinding ''source'') (\<lambda>source.
             (let bindings1 =
                (if \<not> js_map_has m source then js_map_set m source [] else m)
              in
             (case js_map_get bindings1 source of
                None \<Rightarrow> Inl TypeError
              | Some arr \<Rightarrow>
                  bindE (get_prop dataBinding ''field'') (\<lambda>field.
                  Inr (js_map_set bindings1 source (arr @ [field]))))))
           else Inr m) f)) = f m2"
proof -
  from assms have obj: "truthy c" "typeof c = TObject" by (auto simp: is_ComponentConfig_def)
  note gp = get_prop_object [OF obj]
  show ?thesis
  proof (cases "own_prop c ''dataBinding'' = JUndefined")
    case True
    then have "\<forall>k. map_of m k = add_fields (map_of m) k (bound_fields k [c])"
      by (simp add: add_fields_def bound_fields_def)
    with True gp show ?thesis by auto
  next
    case False
    with assms have db: "truthy (own_prop c ''dataBinding'')"
      "typeof (own_prop c ''dataBinding'') = TObject"
      by (auto simp: is_ComponentConfig_def)
    note gpd = get_prop_object [OF db]
    let ?source = "own_prop (own_prop c ''dataBinding'') ''source''"
    let ?field = "own_prop (own_prop c ''dataBinding'') ''field''"
    let ?m2 = "js_map_set m ?source ((case map_of m ?source of None \<Rightarrow> [] | Some old \<Rightarrow> old) @ [?field])"
    have fields: "map_of ?m2 k = add_fields (map_of m) k (bound_fields k [c])" for k
      using False by (auto simp: map_of_js_map_set add_fields_def bound_fields_def)
    have set_set: "js_map_set (js_map_set m ?source []) ?source [?field]
        = js_map_set m ?source [?field]"
      by (induction m) auto
    have run: "(let bindings1 =
                (if \<not> js_map_has m ?source then js_map_set m ?source [] else m)
              in
             (case js_map_get bindings1 ?source of
                None \<Rightarrow> Inl TypeError
              | Some arr \<Rightarrow> Inr (js_map_set bindings1 ?source (arr @ [?field])))) = Inr ?m2"
      by (cases "map_of m ?source")
         (simp_all add: js_map_has_def js_map_get_def map_of_js_map_set set_set)
    have "(bindE (get_prop c ''dataBinding'') (\<lambda>dataBinding.
          bindE
          (if truthy dataBinding then
             bindE (get_prop dataBinding ''source'') (\<lambda>source.
             (let bindings1 =
                (if \<not> js_map_has m source then js_map_set m source [] else m)
              in
             (case js_map_get bindings1 source of
                None \<Rightarrow> Inl TypeError
              | Some arr \<Rightarrow>
                  bindE (get_prop dataBinding ''field'') (\<lambda>field.
                  Inr (js_map_set bindings1 source (arr @ [field]))))))
           else Inr m) f)) = f ?m2"
      by (simp only: gp gpd bindE.simps db if_True run)
    with fields show ?thesis by blast
  qed
qed

lemma collectBindings_preorder:
  "list_all is_ComponentConfig (preorder cs) \<Longrightarrow>
   \<exists>m'. collectBindings (JArr cs) m = Inr m'
     \<and> (\<forall>k. map_of m' k = add_fields (map_of m) k (bound_fields k (preorder cs)))"
proof (induction cs arbitrary: m rule: preorder.induct)
  case 1
  show ?case by (simp add: collectBindings_Nil add_fields_def bound_fields_def)
next
  case (2 c cs)
  from "2.prems" have typed: "is_ComponentConfig c"
    and typed_children: "list_all is_ComponentConfig (preorder (children_of c))"
    and typed_rest: "list_all is_ComponentConfig (preorder cs)"
    by simp_all
  from typed have obj: "truthy c" "typeof c = TObject"
    and ch: "own_prop c ''children'' = JUndefined \<or> isArray (own_prop c ''children'')"
    by (auto simp: is_ComponentConfig_def)
  note gp = get_prop_object [OF obj]
  let ?rest = "\<lambda>bindings2.
        bindE (get_prop c ''children'') (\<lambda>children.
        if truthy children then collectBindings children bindings2
        else Inr bindings2)"
  from own_binding [OF typed, of m ?rest] collectBindings_Cons [of c cs m]
  obtain m2 where
    m2: "\<forall>k. map_of m2 k = add_fields (map_of m) k (bound_fields k [c])"
    and run: "collectBindings (JArr (c # cs)) m =
       bindE (?rest m2) (\<lambda>m1. collectBindings (JArr cs) m1)"
    by auto
  have children: "?rest m2 = collectBindings (JArr (children_of c)) m2"
    using ch by (cases "own_prop c ''children''") (simp_all add: gp collectBindings_Nil)
  from "2.IH"(1) [OF typed_children, of m2] obtain m3 where
    m3: "collectBindings (JArr (children_of c)) m2 = Inr m3"
    and f3: "\<forall>k. map_of m3 k = add_fields (map_of m2) k (bound_fields k (preorder (children_of c)))"
    by blast
  from "2.IH"(2) [OF typed_rest, of m3] obtain m4 where
    m4: "collectBindings (JArr cs) m3 = Inr m4"
    and f4: "\<forall>k. map_of m4 k = add_fields (map_of m3) k (bound_fields k (preorder cs))"
    by blast
  have nodes: "preorder (c # cs) = [c] @ preorder (children_of c) @ preorder cs"
    by simp
  have "map_of m4 k = add_fields (map_of m) k (bound_fields k (preorder (c # cs)))" for k
    unfolding nodes bound_fields_append
    using m2 [rule_format, of k] f3 [rule_format, of k] f4 [rule_format, of k]
    by (auto simp: add_fields_def split: option.splits simp del: children_of.simps)
  moreover from run children m3 m4 have "collectBindings (JArr (c # cs)) m = Inr m4" by simp
  ultimately show ?case by blast
qed

text \<open>
  C7. For every \<open>PageConfig\<close> (an object whose \<open>components\<close> is an array of component
  objects, with \<open>children\<close> arrays and \<open>dataBinding\<close> objects with a string \<open>source\<close> where
  present), \<open>getDataBindings\<close> returns a map that holds, for each data-source id bound
  somewhere in the tree, exactly the \<open>dataBinding.field\<close> of the components bound to that
  id, in depth-first pre-order with children in array order, and no entry for any other
  id.
\<close>

theorem getDataBindings_preorder:
  assumes "is_PageConfig config"
  shows "\<exists>bindings. getDataBindings config = Inr bindings
     \<and> (\<forall>source. js_map_get bindings source =
           (if bound_fields source (preorder (components_of config)) = [] then None
            else Some (bound_fields source (preorder (components_of config)))))"
proof -
  from assms have obj: "truthy config" "typeof config = TObject"
    and arr: "isArray (own_prop config ''components'')"
    and typed: "list_all is_ComponentConfig (preorder (components_of config))"
    by (auto simp: is_PageConfig_def)
  from arr obtain cs where cs: "own_prop config ''components'' = JArr cs"
    by (auto simp: isArray_iff)
  then have comps: "components_of config = cs" by simp
  from collectBindings_preorder [of cs "[]"] typed comps obtain bindings where
    run: "collectBindings (JArr cs) [] = Inr bindings"
    and fields: "\<forall>k. map_of bindings k = add_fields (map_of []) k (bound_fields k (preorder cs))"
    by auto
  from run cs have "getDataBindings config = Inr bindings"
    by (simp add: getDataBindings_def get_prop_object [OF obj])
  moreover from fields comps have "\<forall>source. js_map_get bindings source =
           (if bound_fields source (preorder (components_of config)) = [] then None
            else Some (bound_fields source (preorder (components_of config))))"
    by (simp add: js_map_get_def add_fields_def)
  ultimately show ?thesis by blast
qed

theorem getDataBindings_preorder_witness:
  "\<exists>bindings. getDataBindings
      (JObj [(''pageCode'', JStr ''test''), (''title'', JStr ''Test''),
             (''components'',
                JArr [JObj [(''id'', JStr ''box''), (''type'', JStr ''MContainer''),
                            (''dataBinding'', JObj [(''source'', JStr ''form''),
                                                    (''field'', JStr ''name'')]),
                            (''children'',
                               JArr [JObj [(''id'', JStr ''comp2''), (''type'', JStr ''MText''),
                                           (''dataBinding'', JObj [(''source'', JStr ''list''),
                                                                   (''field'', JStr ''items'')])]])],
                      JObj [(''id'', JStr ''comp3''), (''type'', JStr ''MInput''),
                            (''dataBinding'', JObj [(''source'', JStr ''form''),
                                                    (''field'', JStr ''age'')])]])])
      = Inr bindings
    \<and> js_map_get bindings (JStr ''form'') = Some [JStr ''name'', JStr ''age'']
    \<and> js_map_get bindings (JStr ''list'') = Some [JStr ''items'']
    \<and> js_map_get bindings (JStr ''other'') = None"
proof -
  let ?comp2 = "JObj [(''id'', JStr ''comp2''), (''type'', JStr ''MText''),
                      (''dataBinding'', JObj [(''source'', JStr ''list''),
                                              (''field'', JStr ''items'')])]"
  let ?box = "JObj [(''id'', JStr ''box''), (''type'', JStr ''MContainer''),
                    (''dataBinding'', JObj [(''source'', JStr ''form''),
                                            (''field'', JStr ''name'')]),
                    (''children'', JArr [?comp2])]"
  let ?comp3 = "JObj [(''id'', JStr ''comp3''), (''type'', JStr ''MInput''),
                      (''dataBinding'', JObj [(''source'', JStr ''form''),
                                              (''field'', JStr ''age'')])]"
  let ?cfg = "JObj [(''pageCode'', JStr ''test''), (''title'', JStr ''Test''),
                    (''components'', JArr [?box, ?comp3])]"
  have nodes: "preorder (components_of ?cfg) = [?box, ?comp2, ?comp3]" by simp
  have typed: "is_PageConfig ?cfg"
    unfolding is_PageConfig_def nodes by (simp add: is_ComponentConfig_def)
  from getDataBindings_preorder [OF typed] obtain bindings where
    run: "getDataBindings ?cfg = Inr bindings"
    and fields: "\<forall>source. js_map_get bindings source =
           (if bound_fields source [?box, ?comp2, ?comp3] = [] then None
            else Some (bound_fields source [?box, ?comp2, ?comp3]))"
    unfolding nodes by blast
  from fields [rule_format, of "JStr ''form''"]
  have a: "js_map_get bindings (JStr ''form'') = Some [JStr ''name'', JStr ''age'']"
    by (simp add: bound_fields_def)
  from fields [rule_format, of "JStr ''list''"]
  have b: "js_map_get bindings (JStr ''list'') = Some [JStr ''items'']"
    by (simp add: bound_fields_def)
  from fields [rule_format, of "JStr ''other''"]
  have c: "js_map_get bindings (JStr ''other'') = None"
    by (simp add: bound_fields_def)
  from run a b c show ?thesis by blast
qed

end
